theory Spec2Isabelle
  imports Complex_Main "HOL-Library.AList" "HOL-Library.Char_ord" "HOL-Library.List_Lexorder"
begin

chapter \<open>The programs\<close>

section \<open>Python exceptions\<close>

text \<open>
  The repository is a set of independent Python scripts. An exception is a value of
  \<open>error\<close>; a function that can raise returns \<open>error + 'a\<close>, with \<open>Inl\<close> for the raise.
\<close>

datatype error =
  TypeError | ValueError | KeyError | IndexError | FileNotFoundError | PermissionError
  | JSONDecodeError | UnicodeDecodeError | OSError

section \<open>text-summariser: \<open>TextSummariser.set_summary_bounds\<close>\<close>

text \<open>
  The items of a bounds tuple are Python objects, of which integers and strings are
  modelled (the command line of \<open>text_summariser.py\<close> declares its \<open>--bounds\<close> option
  with \<open>type=tuple\<close>, and the text of an option is a string).
  Ordering two integers or two strings succeeds, strings by code point; ordering an
  integer against a string raises \<open>TypeError\<close>.
\<close>

datatype pyval = PyInt int | PyStr string

fun py_ge :: "pyval \<Rightarrow> pyval \<Rightarrow> error + bool" where
  "py_ge (PyInt a) (PyInt b) = Inr (a \<ge> b)"
| "py_ge (PyStr a) (PyStr b) = Inr (a \<ge> b)"
| "py_ge _ _ = Inl TypeError"

fun py_gt :: "pyval \<Rightarrow> pyval \<Rightarrow> error + bool" where
  "py_gt (PyInt a) (PyInt b) = Inr (a > b)"
| "py_gt (PyStr a) (PyStr b) = Inr (a > b)"
| "py_gt _ _ = Inl TypeError"

text \<open>
  The \<open>summary_bounds\<close> argument: \<open>None\<close>, a tuple, or an object that is not a tuple
  (a list, or a single integer or string).
\<close>

datatype summary_arg = ArgNone | ArgTuple "pyval list" | ArgList "pyval list" | ArgVal pyval

fun is_tuple :: "summary_arg \<Rightarrow> bool" where
  "is_tuple (ArgTuple _) = True"
| "is_tuple _ = False"

fun is_PyInt :: "pyval \<Rightarrow> bool" where
  "is_PyInt (PyInt _) = True"
| "is_PyInt (PyStr _) = False"

fun int_items :: "summary_arg \<Rightarrow> bool" where
  "int_items (ArgTuple xs) = list_all is_PyInt xs"
| "int_items _ = True"

text \<open>
  \<open>set_summary_bounds\<close>, branch by branch in the order of the source's
  \<open>if\<close>/\<open>elif\<close> chain. \<open>num_words\<close>, \<open>min_percent\<close> and \<open>max_percent\<close> are the attributes
  of \<open>self\<close> that the method reads. \<open>trunc_mul n p\<close> stands for the Python expression
  \<open>int(n * p)\<close> on an \<open>int\<close> \<open>n\<close> and a finite \<open>float\<close> \<open>p\<close>: binary floating point is not
  modelled, so the product is a parameter of the model.
\<close>

definition set_summary_bounds ::
  "(int \<Rightarrow> 'f \<Rightarrow> int) \<Rightarrow> int \<Rightarrow> 'f \<Rightarrow> 'f \<Rightarrow> summary_arg \<Rightarrow> error + pyval list" where
  "set_summary_bounds trunc_mul num_words min_percent max_percent summary_bounds =
     (case summary_bounds of
        ArgList xs \<Rightarrow> Inl TypeError
      | ArgVal v \<Rightarrow> Inl TypeError
      | ArgTuple xs \<Rightarrow>
          (if length xs \<noteq> 2 then Inl ValueError
           else (case py_ge (xs ! 0) (xs ! 1) of
                   Inl e \<Rightarrow> Inl e
                 | Inr True \<Rightarrow> Inl ValueError
                 | Inr False \<Rightarrow>
                     (case py_gt (xs ! 0) (PyInt num_words) of
                        Inl e \<Rightarrow> Inl e
                      | Inr True \<Rightarrow> Inl ValueError
                      | Inr False \<Rightarrow> Inr xs)))
      | ArgNone \<Rightarrow>
          (let min_wds = trunc_mul num_words min_percent;
               max_wds = trunc_mul num_words max_percent
           in Inr [PyInt min_wds, PyInt max_wds]))"
section \<open>tariff_analysis: data frames and \<open>utils.add_standardised_comm_code\<close>\<close>

text \<open>
  A cell of a text column holds a string or is missing (\<open>NaN\<close>): \<open>None\<close> is the missing
  cell. A string is a list of characters of any type \<open>'c\<close>, so that the model does not
  fix a character set. A data frame is the list of its columns, in order, each with its
  name and its cells; column names are distinct, as \<open>table_to_df\<close> builds them.
\<close>

type_synonym 'c cell = "'c list option"

type_synonym 'c dataframe = "(string \<times> 'c cell list) list"

text \<open>
  The vectorised string methods of pandas work cell by cell and leave a missing cell
  missing. \<open>.str.replace(r"\D+", "", regex=True)\<close> deletes every maximal run of
  characters that are not digits, which keeps exactly the digits; which characters the
  class \<open>\d\<close> holds is the parameter \<open>isdigit\<close>. \<open>.str.ljust(width, fillchar)\<close> pads on
  the right up to \<open>width\<close> and returns a string that is already that long unchanged.
\<close>

definition str_replace_nondigits :: "('c \<Rightarrow> bool) \<Rightarrow> 'c cell list \<Rightarrow> 'c cell list" where
  "str_replace_nondigits isdigit col = map (map_option (filter isdigit)) col"

definition str_ljust :: "nat \<Rightarrow> 'c \<Rightarrow> 'c cell list \<Rightarrow> 'c cell list" where
  "str_ljust width fillchar col =
     map (map_option (\<lambda>s. s @ replicate (width - length s) fillchar)) col"

text \<open>
  \<open>add_standardised_comm_code\<close>: \<open>df[new_col] = ...\<close> replaces the column of that name
  where the frame has one and appends it otherwise, which is \<open>AList.update\<close>. When the
  frame lacks \<open>comm_code_col\<close> the source logs a warning and returns the frame as it is.
  \<open>zero\<close> is the character \<open>"0"\<close>.
\<close>

definition add_standardised_comm_code ::
  "('c \<Rightarrow> bool) \<Rightarrow> 'c \<Rightarrow> 'c dataframe \<Rightarrow> string \<Rightarrow> string \<Rightarrow> 'c dataframe" where
  "add_standardised_comm_code isdigit zero df comm_code_col new_col =
     (case map_of df comm_code_col of
        Some col \<Rightarrow>
          AList.update new_col (str_ljust 10 zero (str_replace_nondigits isdigit col)) df
      | None \<Rightarrow> df)"

text \<open>The digits of ASCII, and the configured column names (\<open>config.COL_HDRS\<close>).\<close>

definition ascii_digit :: "char \<Rightarrow> bool" where
  "ascii_digit c = (c \<in> set ''0123456789'')"

definition COMM_CODE :: string where
  "COMM_CODE = ''commodity_code''"

definition STANDARD_COMM_CODE :: string where
  "STANDARD_COMM_CODE = ''standardised_commodity_code''"

section \<open>enquiries-classification: \<open>ModelTrain\<close>\<close>

text \<open>
  What scikit-learn does with one entry of \<open>model_params\<close> on the given data is the
  environment of the trainer: \<open>grid_search.fit\<close> raises, or it returns and the scoring of
  the best estimator on the hold-out set raises (\<open>predict\<close> and \<open>test_scorer\<close> are called
  in the \<open>else\<close> branch, outside the \<open>try\<close>), or both return, with the best
  estimator and its test score. A score is a Python float other than \<open>NaN\<close>; such floats
  compare as the reals do.
\<close>

datatype 'm outcome = FitRaises | ScoreRaises error | Trained 'm real

text \<open>The dictionary \<open>{"model": ..., "score": ...}\<close>; the model \<open>None\<close> is \<open>None\<close>.\<close>

record 'm scored =
  model :: "'m option"
  score :: real

text \<open>
  \<open>train_single_model\<close>: a raise of \<open>fit\<close> is caught and gives the model \<open>None\<close> with the
  score \<open>-1.0\<close>; a raise of the scoring propagates.
\<close>

definition train_single_model :: "('c \<Rightarrow> 'm outcome) \<Rightarrow> 'c \<Rightarrow> error + 'm scored" where
  "train_single_model grid m_s =
     (case grid m_s of
        FitRaises \<Rightarrow> Inr \<lparr>model = None, score = - 1\<rparr>
      | ScoreRaises e \<Rightarrow> Inl e
      | Trained m test_score \<Rightarrow> Inr \<lparr>model = Some m, score = test_score\<rparr>)"

text \<open>
  The loop of \<open>train_all_models\<close> over \<open>model_settings\<close>. Its state is \<open>best\<close> and the
  list of the entries whose grid search has been run, latest last. \<open>modl\<close> is the
  source's \<open>mod\<close>; it is never \<open>None\<close>, so the source's test \<open>mod is not None\<close> is
  always true.
\<close>

fun train_loop ::
  "('c \<Rightarrow> 'm outcome) \<Rightarrow> 'm scored \<times> 'c list \<Rightarrow> 'c list \<Rightarrow> error + ('m scored \<times> 'c list)" where
  "train_loop grid (best, fitted) [] = Inr (best, fitted)"
| "train_loop grid (best, fitted) (m_s # rest) =
     (case train_single_model grid m_s of
        Inl e \<Rightarrow> Inl e
      | Inr modl \<Rightarrow>
          train_loop grid ((if score modl > score best then modl else best), fitted @ [m_s]) rest)"

text \<open>
  \<open>train_all_models\<close> returns \<open>best\<close> when its model is not \<open>None\<close>; otherwise it logs a
  warning and falls off its end, which returns \<open>None\<close>. The second component is the list of
  grid searches run.
\<close>

definition train_all_models ::
  "('c \<Rightarrow> 'm outcome) \<Rightarrow> 'c list \<Rightarrow> error + ('m scored option \<times> 'c list)" where
  "train_all_models grid model_settings =
     (case train_loop grid (\<lparr>model = None, score = - 1\<rparr>, []) model_settings of
        Inl e \<Rightarrow> Inl e
      | Inr (best, fitted) \<Rightarrow>
          (if model best \<noteq> None then Inr (Some best, fitted) else Inr (None, fitted)))"

text \<open>
  The model files on disk: a map from paths to pickled models. \<open>utils.persist_model\<close>
  opens the file for writing and pickles the model into it; \<open>writable\<close> says whether the
  file can be opened. \<open>save_model_to_repo\<close> catches and logs the failure, which leaves the
  files as they were.
\<close>

type_synonym 'm model_files = "string \<rightharpoonup> 'm option"

definition save_model_to_repo ::
  "(string \<Rightarrow> bool) \<Rightarrow> string \<Rightarrow> 'm option \<Rightarrow> 'm model_files \<Rightarrow> 'm model_files" where
  "save_model_to_repo writable model_path m files =
     (if writable model_path then files(model_path \<mapsto> m) else files)"

text \<open>
  \<open>run_trainer\<close>. The attributes of \<open>self\<close> it reads are its arguments. With
  \<open>save_model\<close> set it subscripts the result of \<open>train_all_models\<close> with \<open>["model"]\<close>, which
  raises \<open>TypeError\<close> when that result is \<open>None\<close>. It returns what it raised or returned,
  and the model files.
\<close>

definition run_trainer ::
  "('c \<Rightarrow> 'm outcome) \<Rightarrow> (string \<Rightarrow> bool) \<Rightarrow> 'c list \<Rightarrow> string \<Rightarrow> bool \<Rightarrow> 'm model_files
     \<Rightarrow> (error + 'm scored option) \<times> 'm model_files" where
  "run_trainer grid writable model_params model_path save_model files =
     (case train_all_models grid model_params of
        Inl e \<Rightarrow> (Inl e, files)
      | Inr (best_model, fitted) \<Rightarrow>
          (if save_model then
             (case best_model of
                None \<Rightarrow> (Inl TypeError, files)
              | Some b \<Rightarrow> (Inr best_model, save_model_to_repo writable model_path (model b) files))
           else (Inr best_model, files)))"

text \<open>The hold-out score of an entry as the selection counts it: \<open>-1.0\<close> for a failed fit.\<close>

definition test_score :: "('c \<Rightarrow> 'm outcome) \<Rightarrow> 'c \<Rightarrow> real" where
  "test_score grid m_s = (case grid m_s of Trained m s \<Rightarrow> s | _ \<Rightarrow> - 1)"



section \<open>topic_modelling: \<open>GensimTopicModeller\<close> and the \<open>run_lda\<close> driver\<close>

text \<open>
  Python's \<open>range(start, stop, step)\<close> on integers: a step of zero raises \<open>ValueError\<close>;
  a positive step counts up while below \<open>stop\<close>, a negative step counts down while above.
\<close>

function range_from :: "int \<Rightarrow> int \<Rightarrow> int \<Rightarrow> int list" where
  "range_from i stop step =
     (if (0 < step \<and> i < stop) \<or> (step < 0 \<and> stop < i)
      then i # range_from (i + step) stop step else [])"
  by pat_completeness auto
termination
  by (relation "measure (\<lambda>(i, stop, step). nat (if 0 < step then stop - i else i - stop))")
     auto

declare range_from.simps [simp del]

definition py_range :: "int \<Rightarrow> int \<Rightarrow> int \<Rightarrow> error + int list" where
  "py_range start stop step = (if step = 0 then Inl ValueError else Inr (range_from start stop step))"

text \<open>
  The dictionary \<open>{"topics": i, "model": ..., "coherence": ...}\<close> of one candidate. Gensim
  is the environment: \<open>lda i\<close> is the model that \<open>LdaMulticore\<close> trains for \<open>i\<close> topics on
  the corpus (with the fixed seed), and \<open>c_v m\<close> is the \<open>c_v\<close> coherence that
  \<open>CoherenceModel\<close> gives the model \<open>m\<close>.
\<close>

record 'm candidate =
  topics :: int
  lda_model :: 'm
  coherence :: real

text \<open>The \<open>topics\<close> dictionary \<open>{"start": ..., "limit": ..., "step": ...}\<close>.\<close>

record topic_range =
  start :: int
  limit :: int
  step :: int

text \<open>The body of the \<open>for\<close> loop of \<open>get_models_and_coherence\<close>, appending to the list.\<close>

fun models_loop ::
  "(int \<Rightarrow> 'm) \<Rightarrow> ('m \<Rightarrow> real) \<Rightarrow> 'm candidate list \<Rightarrow> int list \<Rightarrow> 'm candidate list" where
  "models_loop lda c_v models_and_coherence [] = models_and_coherence"
| "models_loop lda c_v models_and_coherence (i # rest) =
     models_loop lda c_v
       (models_and_coherence @ [\<lparr>topics = i, lda_model = lda i, coherence = c_v (lda i)\<rparr>])
       rest"

text \<open>
  \<open>get_models_and_coherence\<close>. The attributes \<open>num_topics\<close> (which may be \<open>None\<close>),
  \<open>single_model\<close> and \<open>topics\<close> of \<open>self\<close> are arguments. Only the chosen branch of the
  conditional expression is evaluated, so \<open>num_topics + 1\<close> raises \<open>TypeError\<close> on \<open>None\<close>
  only when \<open>single_model\<close> is set.
\<close>

definition get_models_and_coherence ::
  "(int \<Rightarrow> 'm) \<Rightarrow> ('m \<Rightarrow> real) \<Rightarrow> int option \<Rightarrow> bool \<Rightarrow> topic_range
     \<Rightarrow> error + 'm candidate list" where
  "get_models_and_coherence lda c_v num_topics single_model tr =
     (case (if single_model
            then (case num_topics of None \<Rightarrow> Inl TypeError | Some n \<Rightarrow> Inr (n, n + 1, 1))
            else Inr (start tr, limit tr, step tr)) of
        Inl e \<Rightarrow> Inl e
      | Inr (rng0, rng1, rng2) \<Rightarrow>
          (case py_range rng0 rng1 rng2 of
             Inl e \<Rightarrow> Inl e
           | Inr r \<Rightarrow> Inr (models_loop lda c_v [] r)))"

text \<open>
  The files the pipeline writes. \<open>'d\<close> is the gensim dictionary and \<open>'k\<close> the corpus; the
  pickle of the list of candidates holds the whole list. Writing a file is taken to
  succeed.
\<close>

datatype ('d, 'k, 'm) artifact =
  DictFile 'd | CorpusFile 'k | ModelsFile "'m candidate list" | PlotFile "int list" "real list"

type_synonym ('d, 'k, 'm) artifacts = "string \<rightharpoonup> ('d, 'k, 'm) artifact"

text \<open>
  \<open>save_coherence_plot\<close> plots the coherence values against the configured range of topic
  counts, whatever \<open>single_model\<close> is; matplotlib raises \<open>ValueError\<close> when the two differ in
  length.
\<close>

definition save_coherence_plot ::
  "topic_range \<Rightarrow> real list \<Rightarrow> ('d, 'k, 'm) artifacts \<Rightarrow> error + ('d, 'k, 'm) artifacts" where
  "save_coherence_plot tr coherence_vals files =
     (case py_range (start tr) (limit tr) (step tr) of
        Inl e \<Rightarrow> Inl e
      | Inr x \<Rightarrow>
          (if length x \<noteq> length coherence_vals then Inl ValueError
           else Inr (files(''vis/coherence.png'' \<mapsto> PlotFile x coherence_vals))))"

definition run_topic_modelling ::
  "(int \<Rightarrow> 'm) \<Rightarrow> ('m \<Rightarrow> real) \<Rightarrow> 'd \<Rightarrow> 'k \<Rightarrow> int option \<Rightarrow> bool \<Rightarrow> topic_range \<Rightarrow> bool
     \<Rightarrow> ('d, 'k, 'm) artifacts
     \<Rightarrow> error + (('d \<times> 'k \<times> 'm candidate list) \<times> ('d, 'k, 'm) artifacts)" where
  "run_topic_modelling lda c_v dct corpus num_topics single_model tr save_plot files =
     (case get_models_and_coherence lda c_v num_topics single_model tr of
        Inl e \<Rightarrow> Inl e
      | Inr models_coherence \<Rightarrow>
          (if save_plot then
             (case save_coherence_plot tr (map coherence models_coherence) files of
                Inl e \<Rightarrow> Inl e
              | Inr files' \<Rightarrow> Inr ((dct, corpus, models_coherence), files'))
           else Inr ((dct, corpus, models_coherence), files)))"

text \<open>\<open>save_artifacts\<close> writes the dictionary, the corpus and the list it is given.\<close>

definition save_artifacts ::
  "'d \<Rightarrow> 'k \<Rightarrow> 'm candidate list \<Rightarrow> ('d, 'k, 'm) artifacts \<Rightarrow> ('d, 'k, 'm) artifacts" where
  "save_artifacts dct corpus model_coherence files =
     files(''models/dict'' \<mapsto> DictFile dct,
           ''models/corpus.pkl'' \<mapsto> CorpusFile corpus,
           ''models/models_coherence.pkl'' \<mapsto> ModelsFile model_coherence)"

text \<open>\<open>load_artifacts\<close> reads the three files back; a missing file raises.\<close>

definition load_artifacts ::
  "('d, 'k, 'm) artifacts \<Rightarrow> error + ('d \<times> 'k \<times> 'm candidate list)" where
  "load_artifacts files =
     (case (files ''models/dict'', files ''models/corpus.pkl'',
            files ''models/models_coherence.pkl'') of
        (Some (DictFile dct), Some (CorpusFile corpus), Some (ModelsFile models_coherence)) \<Rightarrow>
          Inr (dct, corpus, models_coherence)
      | _ \<Rightarrow> Inl FileNotFoundError)"

text \<open>
  The driver \<open>run_lda\<close>. It builds the modeller with \<open>save_plot=True\<close> whatever its own
  \<open>save_plot\<close> argument is, and saves what \<open>run_topic_modelling\<close> returns.
\<close>

definition run_lda ::
  "(int \<Rightarrow> 'm) \<Rightarrow> ('m \<Rightarrow> real) \<Rightarrow> bool \<Rightarrow> 'd \<Rightarrow> 'k \<Rightarrow> int option \<Rightarrow> bool \<Rightarrow> topic_range
     \<Rightarrow> ('d, 'k, 'm) artifacts
     \<Rightarrow> error + (('d \<times> 'k \<times> 'm candidate list) \<times> ('d, 'k, 'm) artifacts)" where
  "run_lda lda c_v run_model dct corpus num_topics single_model tr files =
     (if run_model then
        (case run_topic_modelling lda c_v dct corpus num_topics single_model tr True files of
           Inl e \<Rightarrow> Inl e
         | Inr ((dct', corpus', m_c), files') \<Rightarrow>
             Inr ((dct', corpus', m_c), save_artifacts dct' corpus' m_c files'))
      else
        (case load_artifacts files of
           Inl e \<Rightarrow> Inl e
         | Inr r \<Rightarrow> Inr (r, files)))"

text \<open>
  An example environment: a model is named by its number of topics, and the model of
  three topics has the best coherence.
\<close>

definition example_c_v :: "int \<Rightarrow> real" where
  "example_c_v m = (if m = 3 then 0.5 else 0.4)"

section \<open>File reads: \<open>get_raw_data_from_file\<close>, \<open>get_csv_data\<close>, \<open>load_processed_text\<close>\<close>

text \<open>
  What the library call that reads the file does is the environment: it returns what it
  read, or it raises. Every exception of \<open>error\<close> is a subclass of Python's \<open>Exception\<close>,
  so \<open>except Exception\<close> catches each of them; \<open>except FileNotFoundError\<close> catches that
  one only.
\<close>

datatype 'a file_read = Reads 'a | ReadRaises error

text \<open>
  How a call ends: it returns, it raises to its caller, or it ends the process through
  \<open>sys.exit\<close> with an exit code.
\<close>

datatype 'a completion = Returns 'a | Raises error | Exits nat

text \<open>What a call leaves on the console and in the log, in order.\<close>

datatype level = INFO | WARNING | ERROR | CRITICAL

datatype log_entry = Printed | Logged level

text \<open>
  \<open>WordDocProcessor.get_raw_data_from_file\<close>: \<open>Document(self.filepath)\<close> in a \<open>try\<close>; on
  any exception it prints, logs at level critical and calls \<open>sys.exit(1)\<close>.
\<close>

definition get_raw_data_from_file ::
  "'doc file_read \<Rightarrow> log_entry list \<Rightarrow> 'doc completion \<times> log_entry list" where
  "get_raw_data_from_file document logs =
     (case document of
        ReadRaises err \<Rightarrow> (Exits 1, logs @ [Printed, Logged CRITICAL])
      | Reads doc \<Rightarrow> (Returns doc, logs @ [Logged INFO]))"

text \<open>\<open>utils.get_csv_data\<close>: \<open>pd.read_csv\<close> in a \<open>try\<close>, handled likewise without the print.\<close>

definition get_csv_data ::
  "'df file_read \<Rightarrow> log_entry list \<Rightarrow> 'df completion \<times> log_entry list" where
  "get_csv_data read_csv logs =
     (case read_csv of
        ReadRaises err \<Rightarrow> (Exits 1, logs @ [Logged CRITICAL])
      | Reads df \<Rightarrow> (Returns df, logs @ [Logged INFO]))"

text \<open>
  \<open>text_processing.load_processed_text\<close>: \<open>open\<close> and \<open>json.load\<close> in a \<open>try\<close> whose only
  handler is \<open>except FileNotFoundError\<close>; the handler prints and the function falls off
  its end, returning \<open>None\<close>. Any other exception of the read leaves the function.
\<close>

definition load_processed_text ::
  "'j file_read \<Rightarrow> log_entry list \<Rightarrow> 'j option completion \<times> log_entry list" where
  "load_processed_text json_load logs =
     (case json_load of
        Reads text \<Rightarrow> (Returns (Some text), logs)
      | ReadRaises err \<Rightarrow>
          (if err = FileNotFoundError then (Returns None, logs @ [Printed])
           else (Raises err, logs)))"

section \<open>google-analytics: the traffic generator \<open>poll_website.py\<close>\<close>

text \<open>
  The random number generator is a stream of draws, \<open>draws :: nat \<Rightarrow> nat\<close>, read at a
  position that each call of \<open>random\<close> advances. What a run does to the browser and the
  clock is a trace of events, in order; \<open>time.sleep(d)\<close> is the event \<open>Sleep d\<close>. The
  module-level dictionary \<open>click_count\<close> is part of the state.
\<close>

datatype event =
  Open | Get string | Click string | NotLocated string | Unexpected | Sleep real | Quit
  | Completed

record world =
  pos :: nat
  trace :: "event list"
  click_count :: "string \<rightharpoonup> nat"

definition emit :: "event \<Rightarrow> world \<Rightarrow> world" where
  "emit e w = w\<lparr>trace := trace w @ [e]\<rparr>"

text \<open>
  \<open>time.sleep(secs)\<close> raises \<open>ValueError\<close> for a negative duration, and otherwise
  sleeps.
\<close>

definition time_sleep :: "real \<Rightarrow> world \<Rightarrow> error option \<times> world" where
  "time_sleep secs w = (if secs < 0 then (Some ValueError, w) else (None, emit (Sleep secs) w))"

text \<open>The sleep durations of a trace, in order.\<close>

fun sleeps :: "event list \<Rightarrow> real list" where
  "sleeps [] = []"
| "sleeps (Sleep d # es) = d # sleeps es"
| "sleeps (e # es) = sleeps es"

text \<open>
  \<open>random.randint(a, b)\<close> gives an integer from \<open>a\<close> to \<open>b\<close> inclusive and raises
  \<open>ValueError\<close> on an empty range; \<open>random.choice(seq)\<close> gives an item of \<open>seq\<close> and raises
  \<open>IndexError\<close> on an empty one.
\<close>

definition randint :: "(nat \<Rightarrow> nat) \<Rightarrow> int \<Rightarrow> int \<Rightarrow> world \<Rightarrow> (error + int) \<times> world" where
  "randint draws a b w =
     (if b < a then (Inl ValueError, w)
      else (Inr (a + int (draws (pos w) mod nat (b - a + 1))), w\<lparr>pos := pos w + 1\<rparr>))"

definition random_choice :: "(nat \<Rightarrow> nat) \<Rightarrow> 'a list \<Rightarrow> world \<Rightarrow> (error + 'a) \<times> world" where
  "random_choice draws seq w =
     (if seq = [] then (Inl IndexError, w)
      else (Inr (seq ! (draws (pos w) mod length seq)), w\<lparr>pos := pos w + 1\<rparr>))"

text \<open>The module-level constants.\<close>

definition MAX_CLICKS :: int where
  "MAX_CLICKS = 1"

definition WAIT_TIME :: real where
  "WAIT_TIME = 2"

text \<open>
  The module \<open>config\<close> of this project is not among the sources, so its values are
  parameters: the dictionaries \<open>INDEX\<close>, \<open>GRAPHS\<close>, \<open>MAPS\<close> and \<open>CAROUSEL\<close>, each the list of
  its items in order. Subscripting a dictionary with a key that it lacks raises
  \<open>KeyError\<close>.
\<close>

record config =
  INDEX :: "(string \<times> string) list"
  GRAPHS :: "(string \<times> string) list"
  MAPS :: "(string \<times> string) list"
  CAROUSEL :: "(string \<times> string) list"

definition subscript :: "('k \<times> 'v) list \<Rightarrow> 'k \<Rightarrow> error + 'v" where
  "subscript d k = (case map_of d k of None \<Rightarrow> Inl KeyError | Some v \<Rightarrow> Inr v)"

definition INDEX_values :: "config \<Rightarrow> string list" where
  "INDEX_values cfg = map snd (INDEX cfg)"

text \<open>
  The dictionary \<open>click_count\<close> as the module builds it when it is imported: a count of
  zero for the ids of the three buttons of \<open>INDEX\<close> and for the \<open>"ID"\<close> of the three other
  pages. A key that is missing from the configuration raises there.
\<close>

definition initial_click_count :: "config \<Rightarrow> error + (string \<rightharpoonup> nat)" where
  "initial_click_count cfg =
     (case subscript (INDEX cfg) ''RED_BTN_ID'' of Inl e \<Rightarrow> Inl e | Inr red \<Rightarrow>
      case subscript (INDEX cfg) ''YELLOW_BTN_ID'' of Inl e \<Rightarrow> Inl e | Inr yellow \<Rightarrow>
      case subscript (INDEX cfg) ''GREEN_BTN_ID'' of Inl e \<Rightarrow> Inl e | Inr green \<Rightarrow>
      case subscript (GRAPHS cfg) ''ID'' of Inl e \<Rightarrow> Inl e | Inr graphs \<Rightarrow>
      case subscript (MAPS cfg) ''ID'' of Inl e \<Rightarrow> Inl e | Inr maps \<Rightarrow>
      case subscript (CAROUSEL cfg) ''ID'' of Inl e \<Rightarrow> Inl e | Inr carousel \<Rightarrow>
        Inr (Map.empty(red \<mapsto> 0, yellow \<mapsto> 0, green \<mapsto> 0, graphs \<mapsto> 0, maps \<mapsto> 0,
                       carousel \<mapsto> 0)))"

text \<open>
  \<open>click_element\<close>: the browser is the environment; \<open>located url elem_id\<close> says whether
  the element turns up in the page within \<open>MAX_WAIT\<close> seconds. An element that does not is
  reported on the console. One that does is clicked and then counted in the \<open>else\<close>
  branch, outside the \<open>try\<close>: \<open>click_count[elem_id] += 1\<close> raises \<open>KeyError\<close> when
  \<open>elem_id\<close> is not a key of \<open>click_count\<close>. The browser's own calls (\<open>get\<close>, \<open>click\<close>,
  \<open>quit\<close>) are taken to return.
\<close>

definition click_element ::
  "(string \<Rightarrow> string \<Rightarrow> bool) \<Rightarrow> string \<Rightarrow> string \<Rightarrow> world \<Rightarrow> error option \<times> world" where
  "click_element located url elem_id w =
     (if located url elem_id then
        (case click_count w elem_id of
           None \<Rightarrow> (Some KeyError, emit (Click elem_id) w)
         | Some n \<Rightarrow>
             (None, (emit (Click elem_id) w)\<lparr>click_count := (click_count w)(elem_id \<mapsto> n + 1)\<rparr>))
      else (None, emit (NotLocated elem_id) w))"

text \<open>
  \<open>url.rsplit(sep="/", maxsplit=1)\<close> and the choice of the suffix: the text after the
  last \<open>"/"\<close>, or the empty string when the URL has no \<open>"/"\<close>.
\<close>

definition url_suffix :: "string \<Rightarrow> string" where
  "url_suffix url =
     (if CHR ''/'' \<in> set url then rev (takeWhile (\<lambda>c. c \<noteq> CHR ''/'') (rev url)) else [])"

text \<open>
  The \<open>for\<close> loop of \<open>page_interactions\<close>, by the number of clicks still to make: the
  chain of tests on the suffix, then \<open>time.sleep(WAIT_TIME)\<close>. A raise ends the loop and
  is returned.
\<close>

fun click_loop ::
  "(nat \<Rightarrow> nat) \<Rightarrow> config \<Rightarrow> (string \<Rightarrow> string \<Rightarrow> bool) \<Rightarrow> string \<Rightarrow> string \<Rightarrow> nat \<Rightarrow> world
     \<Rightarrow> error option \<times> world" where
  "click_loop draws cfg located url suffix 0 w = (None, w)"
| "click_loop draws cfg located url suffix (Suc n) w =
     (case (if suffix = [] \<or> hd suffix = CHR ''?'' then
              (case random_choice draws (INDEX_values cfg) w of
                 (Inl e, w') \<Rightarrow> (Some e, w')
               | (Inr btn_id, w') \<Rightarrow> click_element located url btn_id w')
            else if suffix = ''graphs'' then
              (case subscript (GRAPHS cfg) ''ID'' of
                 Inl e \<Rightarrow> (Some e, w)
               | Inr elem_id \<Rightarrow> click_element located url elem_id w)
            else if suffix = ''maps'' then
              (case subscript (MAPS cfg) ''ID'' of
                 Inl e \<Rightarrow> (Some e, w)
               | Inr elem_id \<Rightarrow> click_element located url elem_id w)
            else if suffix = ''carousel'' then
              (case subscript (CAROUSEL cfg) ''ID'' of
                 Inl e \<Rightarrow> (Some e, w)
               | Inr elem_id \<Rightarrow> click_element located url elem_id w)
            else if suffix = ''about'' then (None, w)
            else (None, emit Unexpected w)) of
        (Some e, w1) \<Rightarrow> (Some e, w1)
      | (None, w1) \<Rightarrow>
          (case time_sleep WAIT_TIME w1 of
             (Some e, w2) \<Rightarrow> (Some e, w2)
           | (None, w2) \<Rightarrow> click_loop draws cfg located url suffix n w2))"

definition page_interactions ::
  "(nat \<Rightarrow> nat) \<Rightarrow> config \<Rightarrow> (string \<Rightarrow> string \<Rightarrow> bool) \<Rightarrow> string \<Rightarrow> world
     \<Rightarrow> error option \<times> world" where
  "page_interactions draws cfg located url w =
     (let w1 = emit (Get url) w;
          suffix = url_suffix url
      in case randint draws 1 MAX_CLICKS w1 of
           (Inl e, w2) \<Rightarrow> (Some e, w2)
         | (Inr num_clicks, w2) \<Rightarrow>
             click_loop draws cfg located url suffix (nat num_clicks) w2)"

text \<open>The \<open>for\<close> loop of \<open>poll_site\<close>, by the number of requests still to make.\<close>

fun poll_loop ::
  "(nat \<Rightarrow> nat) \<Rightarrow> config \<Rightarrow> (string \<Rightarrow> string \<Rightarrow> bool) \<Rightarrow> string list \<Rightarrow> real \<Rightarrow> nat \<Rightarrow> world
     \<Rightarrow> error option \<times> world" where
  "poll_loop draws cfg located urls wait_time 0 w = (None, w)"
| "poll_loop draws cfg located urls wait_time (Suc n) w =
     (case random_choice draws urls (emit Open w) of
        (Inl e, w1) \<Rightarrow> (Some e, w1)
      | (Inr url, w1) \<Rightarrow>
          (case page_interactions draws cfg located url w1 of
             (Some e, w2) \<Rightarrow> (Some e, w2)
           | (None, w2) \<Rightarrow>
               (case time_sleep wait_time w2 of
                  (Some e, w3) \<Rightarrow> (Some e, w3)
                | (None, w3) \<Rightarrow>
                    (case time_sleep wait_time (emit Completed (emit Quit w3)) of
                       (Some e, w4) \<Rightarrow> (Some e, w4)
                     | (None, w4) \<Rightarrow> poll_loop draws cfg located urls wait_time n w4))))"

definition poll_site ::
  "(nat \<Rightarrow> nat) \<Rightarrow> config \<Rightarrow> (string \<Rightarrow> string \<Rightarrow> bool) \<Rightarrow> string list \<Rightarrow> int \<Rightarrow> real \<Rightarrow> world
     \<Rightarrow> error option \<times> world" where
  "poll_site draws cfg located urls num_requests wait_time w =
     poll_loop draws cfg located urls wait_time (nat num_requests) w"

text \<open>The five URLs of a deployment, and an example configuration.\<close>

definition get_urls :: "string \<Rightarrow> string list" where
  "get_urls base_url =
     [base_url, base_url @ ''graphs'', base_url @ ''maps'', base_url @ ''carousel'',
      base_url @ ''about'']"

definition example_config :: config where
  "example_config =
     \<lparr>INDEX = [(''RED_BTN_ID'', ''red''), (''YELLOW_BTN_ID'', ''yellow''),
               (''GREEN_BTN_ID'', ''green'')],
      GRAPHS = [(''ID'', ''graph'')], MAPS = [(''ID'', ''map'')],
      CAROUSEL = [(''ID'', ''carousel'')]\<rparr>"

text \<open>
  The state when a run starts: nothing drawn, nothing done, and the counts as the
  import of the module leaves them with the example configuration.
\<close>

definition example_world :: world where
  "example_world =
     \<lparr>pos = 0, trace = [],
      click_count = [''red'' \<mapsto> 0, ''yellow'' \<mapsto> 0, ''green'' \<mapsto> 0, ''graph'' \<mapsto> 0,
                     ''map'' \<mapsto> 0, ''carousel'' \<mapsto> 0]\<rparr>"

text \<open>
  A configuration whose \<open>INDEX\<close> holds a fourth id, of which \<open>click_count\<close> has no count.
\<close>

definition example_config_four :: config where
  "example_config_four =
     example_config\<lparr>INDEX := INDEX example_config @ [(''BLUE_BTN_ID'', ''blue'')]\<rparr>"
section \<open>Stop-word removal: \<open>TextProcessor\<close> and \<open>NlpProcessingBase\<close>\<close>


text \<open>
  \<open>NlpProcessingBase.remove_stop_words_and_set_case\<close> (enquiries-classification) builds
  the regular expression \<open>\b(?:w1|w2|...)\b\<close> from the stop words, replaces its matches by
  the empty string and then lower-cases the text. A text is a list of characters of any
  alphabet \<open>'c\<close>. The class \<open>\w\<close> of the expression language (the letters and digits of
  Unicode, and the underscore) is the parameter \<open>word_char\<close>, and \<open>str.lower\<close> is the
  parameter \<open>lower\<close>.

  \<open>\b\<close> matches between two positions when exactly one of the neighbouring characters is
  a word character; the start and the end of the text count as not being one.
\<close>

definition boundary :: "('c \<Rightarrow> bool) \<Rightarrow> 'c option \<Rightarrow> 'c option \<Rightarrow> bool" where
  "boundary word_char left right =
     ((case left of None \<Rightarrow> False | Some c \<Rightarrow> word_char c)
      \<noteq> (case right of None \<Rightarrow> False | Some c \<Rightarrow> word_char c))"

text \<open>
  The match of the expression at the start of \<open>rest\<close>, the character before being \<open>prev\<close>:
  the alternatives are tried in the order of the list, and an alternative matches when
  the text starts with it and \<open>\b\<close> holds before and after it. The stop words are read as
  literal text, which they are when they hold none of the metacharacters
  \<open>. ^ $ * + ? { } [ ] \ | ( )\<close> of the expression language; no word character is one.
  An empty alternative deletes nothing and is skipped.
\<close>

fun match_here :: "('c \<Rightarrow> bool) \<Rightarrow> 'c list list \<Rightarrow> 'c option \<Rightarrow> 'c list \<Rightarrow> 'c list option" where
  "match_here word_char [] prev rest = None"
| "match_here word_char (s # stop_words) prev rest =
     (if s \<noteq> [] \<and> take (length s) rest = s
         \<and> boundary word_char prev (Some (hd s))
         \<and> boundary word_char (Some (last s))
              (if length s < length rest then Some (rest ! length s) else None)
      then Some s
      else match_here word_char stop_words prev rest)"

text \<open>
  \<open>re.sub\<close> with the empty replacement, scanning from the left: at a position where the
  expression matches, the match is deleted and the scan goes on after it (\<open>skip\<close> counts
  the characters of the match still to delete); elsewhere the character is kept.
\<close>

fun re_sub_scan :: "('c \<Rightarrow> bool) \<Rightarrow> 'c list list \<Rightarrow> 'c option \<Rightarrow> nat \<Rightarrow> 'c list \<Rightarrow> 'c list" where
  "re_sub_scan word_char stop_words prev skip [] = []"
| "re_sub_scan word_char stop_words prev skip (c # cs) =
     (if 0 < skip then re_sub_scan word_char stop_words (Some c) (skip - 1) cs
      else (case match_here word_char stop_words prev (c # cs) of
              Some s \<Rightarrow> re_sub_scan word_char stop_words (Some c) (length s - 1) cs
            | None \<Rightarrow> c # re_sub_scan word_char stop_words (Some c) 0 cs))"

text \<open>
  The method on a Series: each cell is a string or missing, and the vectorised string
  methods leave a missing cell missing.
\<close>

definition remove_stop_words_and_set_case ::
  "('c \<Rightarrow> bool) \<Rightarrow> ('c list \<Rightarrow> 'c list) \<Rightarrow> 'c list list \<Rightarrow> 'c cell list \<Rightarrow> 'c cell list" where
  "remove_stop_words_and_set_case word_char lower stop_words text_ser =
     map (map_option (\<lambda>s. lower (re_sub_scan word_char stop_words None 0 s))) text_ser"

text \<open>
  What the removal is to do, in words of the text. A word is a run of word characters
  that is not empty. \<open>runs\<close> cuts a text into its words and the stretches between them:
  the maximal runs of word characters and the maximal runs of other characters, in
  order. \<open>stop_words_deleted\<close> deletes each run that is a stop word, keeps every other
  run, and lower-cases the result.
\<close>

definition is_word :: "('c \<Rightarrow> bool) \<Rightarrow> 'c list \<Rightarrow> bool" where
  "is_word word_char w = (w \<noteq> [] \<and> list_all word_char w)"

function runs :: "('c \<Rightarrow> bool) \<Rightarrow> 'c list \<Rightarrow> 'c list list" where
  "runs word_char [] = []"
| "runs word_char (c # cs) =
     (c # takeWhile (\<lambda>x. word_char x = word_char c) cs)
     # runs word_char (dropWhile (\<lambda>x. word_char x = word_char c) cs)"
  by pat_completeness auto
termination
  by (relation "measure (\<lambda>(word_char, cs). length cs)")
     (auto simp: length_dropWhile_le less_Suc_eq_le)

definition stop_words_deleted ::
  "('c \<Rightarrow> bool) \<Rightarrow> ('c list \<Rightarrow> 'c list) \<Rightarrow> 'c list list \<Rightarrow> 'c list \<Rightarrow> 'c list" where
  "stop_words_deleted word_char lower stop_words text =
     lower (concat (map (\<lambda>r. if r \<in> set stop_words then [] else r) (runs word_char text)))"


text \<open>
  ASCII text, for the examples: the word characters are the letters, the digits and the
  underscore, and \<open>str.lower\<close> maps each capital letter to its small letter.
\<close>

definition ascii_word_char :: "char \<Rightarrow> bool" where
  "ascii_word_char c =
     (c \<in> set ''abcdefghijklmnopqrstuvwxyzABCDEFGHIJKLMNOPQRSTUVWXYZ0123456789_'')"

definition ascii_lower_char :: "char \<Rightarrow> char" where
  "ascii_lower_char c =
     (case map_of (zip ''ABCDEFGHIJKLMNOPQRSTUVWXYZ'' ''abcdefghijklmnopqrstuvwxyz'') c of
        Some l \<Rightarrow> l
      | None \<Rightarrow> c)"

definition ascii_lower :: "string \<Rightarrow> string" where
  "ascii_lower s = map ascii_lower_char s"
section \<open>tariff_analysis: archiving the output directory\<close>

text \<open>
  The file system. A directory is named by the components of its absolute, normalised
  path. The regular files are an association list from (directory, file name) to content,
  in the order in which \<open>os.scandir\<close> yields them; the keys are distinct. A zip archive
  holds its members, each a name and a content, in the order they were added. A log
  file holds its lines, each kept as its level and the name of the function that logged
  it. Reading, writing and removing a file that is there is taken to succeed.
\<close>

type_synonym dir = "string list"

datatype content =
  Data string | Zip "(string \<times> content) list" | Log "(level \<times> string) list"

record filesystem =
  fs_dirs :: "dir list"
  fs_files :: "((dir \<times> string) \<times> content) list"

text \<open>
  \<open>os.path.join(a, b)\<close> is \<open>b\<close> when \<open>b\<close> is absolute, and \<open>b\<close> under \<open>a\<close> otherwise.
\<close>

datatype pathname = Absolute dir | Relative dir

fun os_path_join :: "dir \<Rightarrow> pathname \<Rightarrow> dir" where
  "os_path_join a (Absolute b) = b"
| "os_path_join a (Relative b) = a @ b"

text \<open>
  The paths of \<open>config.py\<close>, from the directory \<open>FILE_DIR\<close> that holds the code:
  \<open>OUTPUT_DIR\<close> is \<open>abspath(FILE_DIR/../data/processed)\<close>, \<open>ARCHIVE_DIR\<close> is
  \<open>os.path.join(OUTPUT_DIR, "archive")\<close>, an absolute path, and \<open>LOG_FILE\<close> is
  \<open>FILE_DIR/logs/<f_name>_ingest.log\<close>, \<open>f_name\<close> being the formatted time at which
  \<open>config.py\<close> was imported.
\<close>

definition OUTPUT_DIR :: "dir \<Rightarrow> dir" where
  "OUTPUT_DIR FILE_DIR = butlast FILE_DIR @ [''data'', ''processed'']"

definition OUTPUT_DIR_DEMO :: "dir \<Rightarrow> dir" where
  "OUTPUT_DIR_DEMO FILE_DIR = OUTPUT_DIR FILE_DIR @ [''demo'']"

definition ARCHIVE_DIR :: "dir \<Rightarrow> pathname" where
  "ARCHIVE_DIR FILE_DIR = Absolute (OUTPUT_DIR FILE_DIR @ [''archive''])"

definition AU_RATES_OUTPUT_FILE :: "dir \<Rightarrow> dir \<times> string" where
  "AU_RATES_OUTPUT_FILE FILE_DIR = (OUTPUT_DIR_DEMO FILE_DIR, ''au_rates.csv'')"

definition LOG_FILE :: "dir \<Rightarrow> string \<Rightarrow> dir \<times> string" where
  "LOG_FILE FILE_DIR f_name = (FILE_DIR @ [''logs''], f_name @ ''_ingest.log'')"

text \<open>
  Logging. Every module of the package configures the root logger with the handlers of
  \<open>log_config.py\<close>, one of them a \<open>FileHandler\<close> on \<open>LOG_FILE\<close>; so each call of
  \<open>logger.info\<close>, \<open>logger.warning\<close> and \<open>logger.error\<close> appends a line to that file,
  \<open>log_file\<close> here (and prints it on the console). The handler keeps the file open: when
  the file is no longer at its path, or what is there is not a log, the line does not
  show in the file system.
\<close>

definition logger :: "dir \<times> string \<Rightarrow> level \<Rightarrow> string \<Rightarrow> filesystem \<Rightarrow> filesystem" where
  "logger log_file lvl func fs =
     fs\<lparr>fs_files :=
          AList.map_entry log_file
            (\<lambda>c. case c of Log ls \<Rightarrow> Log (ls @ [(lvl, func)]) | _ \<Rightarrow> c) (fs_files fs)\<rparr>"

text \<open>\<open>os.path.exists\<close>: a directory or a regular file of that path.\<close>

definition path_exists :: "filesystem \<Rightarrow> dir \<Rightarrow> bool" where
  "path_exists fs d =
     (d \<in> set (fs_dirs fs) \<or> (d \<noteq> [] \<and> map_of (fs_files fs) (butlast d, last d) \<noteq> None))"

text \<open>
  \<open>os.makedirs(d)\<close> makes \<open>d\<close> and every missing directory above it; it raises when \<open>d\<close>
  is there already or a regular file stands in the way.
\<close>

definition ancestors :: "dir \<Rightarrow> dir list" where
  "ancestors d = map (\<lambda>n. take n d) [1..<Suc (length d)]"

definition makedirs :: "dir \<Rightarrow> filesystem \<Rightarrow> error + filesystem" where
  "makedirs d fs =
     (if d \<in> set (fs_dirs fs)
         \<or> list_ex (\<lambda>p. map_of (fs_files fs) (butlast p, last p) \<noteq> None) (ancestors d)
      then Inl OSError
      else Inr (fs\<lparr>fs_dirs := fs_dirs fs @ filter (\<lambda>p. p \<notin> set (fs_dirs fs)) (ancestors d)\<rparr>))"

text \<open>
  \<open>get_all_files_in_dir\<close>: the regular files directly in the directory, logged. When the
  directory cannot be scanned the error is logged and the function falls off its end,
  returning \<open>None\<close>.
\<close>

definition get_all_files_in_dir ::
  "dir \<times> string \<Rightarrow> dir \<Rightarrow> filesystem \<Rightarrow> (dir \<times> string) list option \<times> filesystem" where
  "get_all_files_in_dir log_file dir_name fs =
     (if dir_name \<in> set (fs_dirs fs)
      then (Some (map fst (filter (\<lambda>(f, c). fst f = dir_name) (fs_files fs))),
            logger log_file INFO ''get_all_files_in_dir'' fs)
      else (None, logger log_file ERROR ''get_all_files_in_dir'' fs))"

text \<open>
  The loop of \<open>zip_obj.write(f, os.path.basename(f))\<close>: a file that cannot be read raises,
  which ends the loop with the members written so far.
\<close>

fun zip_members :: "((dir \<times> string) \<times> content) list \<Rightarrow> (dir \<times> string) list \<Rightarrow> (string \<times> content) list" where
  "zip_members fl [] = []"
| "zip_members fl (f # file_list) =
     (case map_of fl f of
        None \<Rightarrow> []
      | Some c \<Rightarrow> (snd f, c) # zip_members fl file_list)"

text \<open>
  \<open>add_files_to_zip\<close>. The name of the zip is the first \<open>num_chars\<close> characters of the
  name of the first file of the list, followed by \<open>_results.zip\<close>; when the list has no
  first file (it is empty, or \<open>None\<close>) the subscript raises, a warning is logged and the
  name stays \<open>results.zip\<close>. \<open>ZipFile(zip_path, mode="w")\<close> makes the file, empty,
  replacing one of that path, and the loop then adds the members. Every exception is
  caught and logged as an error: the archive directory is missing, a directory stands at
  the path of the zip, a file of the list cannot be read, or the list is \<open>None\<close> (which
  raises in the loop, after the empty zip was made). Otherwise the success is logged.
\<close>

definition zip_name :: "nat \<Rightarrow> (dir \<times> string) list option \<Rightarrow> string" where
  "zip_name num_chars file_list =
     (case file_list of
        Some (f # rest) \<Rightarrow> take num_chars (snd f) @ ''_results.zip''
      | _ \<Rightarrow> ''results.zip'')"

definition add_files_to_zip ::
  "dir \<times> string \<Rightarrow> dir \<Rightarrow> (dir \<times> string) list option \<Rightarrow> nat \<Rightarrow> filesystem \<Rightarrow> filesystem" where
  "add_files_to_zip log_file target_dir file_list num_chars fs =
     (let fs1 = (case file_list of
                   Some (f # rest) \<Rightarrow> fs
                 | _ \<Rightarrow> logger log_file WARNING ''add_files_to_zip'' fs);
          zip_path = (target_dir, zip_name num_chars file_list)
      in if target_dir \<in> set (fs_dirs fs1) \<and> target_dir @ [snd zip_path] \<notin> set (fs_dirs fs1)
         then (let fs2 = fs1\<lparr>fs_files := AList.update zip_path (Zip []) (fs_files fs1)\<rparr> in
               case file_list of
                 None \<Rightarrow> logger log_file ERROR ''add_files_to_zip'' fs2
               | Some fl \<Rightarrow>
                   logger log_file
                     (if list_all (\<lambda>f. map_of (fs_files fs2) f \<noteq> None) fl then INFO else ERROR)
                     ''add_files_to_zip''
                     (fs2\<lparr>fs_files :=
                            AList.update zip_path (Zip (zip_members (fs_files fs2) fl))
                              (fs_files fs2)\<rparr>))
         else logger log_file ERROR ''add_files_to_zip'' fs1)"

text \<open>
  \<open>delete_files_from_dir\<close>: \<open>os.remove\<close> of each file of the list; it raises \<open>OSError\<close> for
  a file that is not there, which is caught and logged, and a removal is logged too.
  Iterating over \<open>None\<close> raises \<open>TypeError\<close>, which nothing catches.
\<close>

definition os_remove :: "dir \<times> string \<Rightarrow> filesystem \<Rightarrow> error + filesystem" where
  "os_remove f fs =
     (if map_of (fs_files fs) f = None then Inl OSError
      else Inr (fs\<lparr>fs_files := AList.delete f (fs_files fs)\<rparr>))"

definition delete_files_from_dir ::
  "dir \<times> string \<Rightarrow> (dir \<times> string) list option \<Rightarrow> filesystem \<Rightarrow> error + filesystem" where
  "delete_files_from_dir log_file file_list fs =
     (case file_list of
        None \<Rightarrow> Inl TypeError
      | Some fl \<Rightarrow>
          Inr (fold (\<lambda>f fs. case os_remove f fs of
                               Inl err \<Rightarrow> logger log_file ERROR ''delete_files_from_dir'' fs
                             | Inr fs' \<Rightarrow> logger log_file INFO ''delete_files_from_dir'' fs')
                 fl fs))"

text \<open>\<open>auto_archive_files\<close>; it returns the exception it raised, if any, and the file system.\<close>

definition auto_archive_files ::
  "dir \<times> string \<Rightarrow> dir \<Rightarrow> dir \<Rightarrow> bool \<Rightarrow> nat \<Rightarrow> filesystem \<Rightarrow> error option \<times> filesystem" where
  "auto_archive_files log_file dir_name archive_dir to_zip num_chars fs =
     (case (if \<not> path_exists fs archive_dir then makedirs archive_dir fs else Inr fs) of
        Inl e \<Rightarrow> (Some e, fs)
      | Inr fs1 \<Rightarrow>
          (if to_zip then
             (case get_all_files_in_dir log_file dir_name fs1 of
                (file_list, fs2) \<Rightarrow>
                  (let fs3 = add_files_to_zip log_file archive_dir file_list num_chars fs2
                   in case delete_files_from_dir log_file file_list fs3 of
                        Inl e \<Rightarrow> (Some e, fs3)
                      | Inr fs4 \<Rightarrow> (None, fs4)))
           else (None, fs1)))"

text \<open>
  Writing the results. \<open>add_timestamp\<close> puts the formatted time and an underscore before
  the file name. \<open>DataFrame.to_csv\<close> raises when the directory is missing;
  \<open>write_file_info\<close> catches and logs that failure, and logs its success.
\<close>

definition add_timestamp :: "string \<Rightarrow> dir \<times> string \<Rightarrow> dir \<times> string" where
  "add_timestamp now input_str = (fst input_str, now @ ''_'' @ snd input_str)"

definition to_csv :: "dir \<times> string \<Rightarrow> string \<Rightarrow> filesystem \<Rightarrow> error + filesystem" where
  "to_csv path csv fs =
     (if fst path \<in> set (fs_dirs fs) \<and> fst path @ [snd path] \<notin> set (fs_dirs fs)
      then Inr (fs\<lparr>fs_files := AList.update path (Data csv) (fs_files fs)\<rparr>)
      else Inl OSError)"

definition write_file_info ::
  "dir \<times> string \<Rightarrow> string \<Rightarrow> dir \<Rightarrow> string \<Rightarrow> filesystem \<Rightarrow> filesystem" where
  "write_file_info log_file now dir_name text_item fs =
     (let file_path = (dir_name, now @ ''_input_files.txt'') in
      if dir_name \<in> set (fs_dirs fs) \<and> dir_name @ [snd file_path] \<notin> set (fs_dirs fs)
      then logger log_file INFO ''write_file_info''
             (fs\<lparr>fs_files :=
                   AList.update file_path (Data (text_item @ [CHR 0x0A])) (fs_files fs)\<rparr>)
      else logger log_file ERROR ''write_file_info'' fs)"

text \<open>
  \<open>AuRatesDocIngest.run_processor\<close>, from the archiving on: \<open>rates_csv\<close> is the CSV text
  of the cleaned rates table, \<open>input_name\<close> the base name of the document, and \<open>now_zip\<close>,
  \<open>now_csv\<close> and \<open>now_info\<close> the clock's formatted time at the three places that read it.
\<close>

definition run_processor ::
  "dir \<times> string \<Rightarrow> pathname \<Rightarrow> dir \<times> string \<Rightarrow> string \<Rightarrow> string \<Rightarrow> string \<Rightarrow> string \<Rightarrow> string
     \<Rightarrow> filesystem \<Rightarrow> error option \<times> filesystem" where
  "run_processor log_file archive output_file input_name rates_csv now_zip now_csv now_info fs =
     (let dir_name = fst output_file in
      case auto_archive_files log_file dir_name (os_path_join dir_name archive) True
             (length now_zip) fs of
        (Some e, fs1) \<Rightarrow> (Some e, fs1)
      | (None, fs1) \<Rightarrow>
          (case to_csv (add_timestamp now_csv output_file) rates_csv fs1 of
             Inl e \<Rightarrow> (Some e, fs1)
           | Inr fs2 \<Rightarrow> (None, write_file_info log_file now_info dir_name input_name fs2)))"

text \<open>
  An example: the code lives in \<open>/repo/code\<close>; the output directory of the rates holds
  the two files of an earlier run, the archive directory holds a zip of the name that
  the archiving is about to use, and the log of this run has one line so far.
\<close>

definition example_fs :: filesystem where
  "example_fs =
     \<lparr>fs_dirs = [[''repo''], [''repo'', ''code''], [''repo'', ''code'', ''logs''],
              [''repo'', ''data''], [''repo'', ''data'', ''processed''],
              [''repo'', ''data'', ''processed'', ''demo''],
              [''repo'', ''data'', ''processed'', ''archive'']],
      fs_files = [(([''repo'', ''data'', ''processed'', ''demo''], ''20211103-132021_au_rates.csv''),
                 Data ''old rates''),
               (([''repo'', ''data'', ''processed'', ''demo''], ''20211103-132021_input_files.txt''),
                 Data ''old info''),
               (([''repo'', ''data'', ''processed'', ''archive''], ''20211103-132021_results.zip''),
                 Zip [(''keep.csv'', Data ''an earlier archive'')]),
               (([''repo'', ''data'', ''processed''], ''au_uses.csv''), Data ''uses''),
               (([''repo'', ''code'', ''logs''], ''20211105-101459_ingest.log''),
                 Log [(INFO, ''get_raw_data_from_file'')])]\<rparr>"

text \<open>The same, with a directory where the zip is to be written, and no zip.\<close>

definition example_fs_blocked :: filesystem where
  "example_fs_blocked =
     \<lparr>fs_dirs = fs_dirs example_fs
                @ [[''repo'', ''data'', ''processed'', ''archive'', ''20211103-132021_results.zip'']],
      fs_files =
        AList.delete
          ([''repo'', ''data'', ''processed'', ''archive''], ''20211103-132021_results.zip'')
          (fs_files example_fs)\<rparr>"

text \<open>
  The archive directory is ready when it is there, or can be made: no regular file
  stands at its path or above it.
\<close>

definition archive_ready :: "filesystem \<Rightarrow> dir \<Rightarrow> bool" where
  "archive_ready fs d =
     (d \<in> set (fs_dirs fs)
      \<or> (d \<noteq> [] \<and> \<not> list_ex (\<lambda>p. map_of (fs_files fs) (butlast p, last p) \<noteq> None) (ancestors d)))"

text \<open>The files directly in a directory, with their contents, in scanning order.\<close>

definition files_in :: "dir \<Rightarrow> filesystem \<Rightarrow> ((dir \<times> string) \<times> content) list" where
  "files_in dir_name fs = filter (\<lambda>(f, c). fst f = dir_name) (fs_files fs)"

text \<open>
  What is at the path of the log has only gained lines: a log holds the lines it held,
  followed by new ones, and anything else is as it was.
\<close>

fun log_grown :: "content option \<Rightarrow> content option \<Rightarrow> bool" where
  "log_grown (Some (Log ls)) (Some (Log ls')) = (take (length ls) ls' = ls)"
| "log_grown a b = (a = b)"

section \<open>tariff_analysis: \<open>AuUsesDocIngest.extract_commodity_description\<close>\<close>

text \<open>
  The descriptions hold the bullet character \<open>chr(8226)\<close>, so here a string is the list
  of its code points. A Series is the list of its rows, each an index label and a cell;
  the labels of a frame are distinct, as \<open>table_to_df\<close> gives them. Of the data frame the
  function reads the description column only, so the frame is given as that column.
\<close>

type_synonym ustring = "nat list"

type_synonym series = "(nat \<times> ustring option) list"

definition u :: "string \<Rightarrow> ustring" where
  "u s = map of_char s"

definition NL :: nat where
  "NL = 10"

definition HYPHEN :: nat where
  "HYPHEN = 45"

definition SPACE :: nat where
  "SPACE = 32"

definition BULLET :: nat where
  "BULLET = 8226"

text \<open>
  \<open>str.split(pat, 1)\<close> and \<open>str.rsplit(pat, 1)\<close> for a pattern that is not empty: the
  text before and after the first, or the last, place where the pattern stands, or
  \<open>None\<close> when it stands nowhere (the split then gives the text alone).
\<close>

fun split_first :: "ustring \<Rightarrow> ustring \<Rightarrow> (ustring \<times> ustring) option" where
  "split_first pat [] = None"
| "split_first pat (c # cs) =
     (if take (length pat) (c # cs) = pat then Some ([], drop (length pat) (c # cs))
      else map_option (\<lambda>(b, a). (c # b, a)) (split_first pat cs))"

definition rsplit_last :: "ustring \<Rightarrow> ustring \<Rightarrow> (ustring \<times> ustring) option" where
  "rsplit_last pat s = map_option (\<lambda>(b, a). (rev a, rev b)) (split_first (rev pat) (rev s))"

text \<open>
  A split with \<open>expand=True\<close> gives a frame with the columns \<open>number_0\<close>, \<open>number_1\<close>, ...
  (after \<open>add_prefix\<close>). It has as many columns as the longest list of parts, a missing
  cell counting as a list of one; shorter rows are filled with missing cells, and a
  missing cell gives a row of missing cells. A Series with no row gives a frame with no
  column.
\<close>

record frame =
  ncols :: nat
  rows :: "(nat \<times> ustring option list) list"

definition parts :: "(ustring \<times> ustring) option \<Rightarrow> ustring \<Rightarrow> ustring list" where
  "parts sp s = (case sp of None \<Rightarrow> [s] | Some (b, a) \<Rightarrow> [b, a])"

definition expand :: "(nat \<times> ustring list option) list \<Rightarrow> frame" where
  "expand split_rows =
     (let max_len = fold max (map (\<lambda>(i, x). case x of None \<Rightarrow> 1 | Some ps \<Rightarrow> length ps) split_rows) 0
      in \<lparr>ncols = max_len,
          rows = map (\<lambda>(i, x). (i, case x of
                                       None \<Rightarrow> replicate max_len None
                                     | Some ps \<Rightarrow> map Some ps @ replicate (max_len - length ps) None))
                   split_rows\<rparr>)"

definition str_split :: "ustring \<Rightarrow> series \<Rightarrow> frame" where
  "str_split pat ser =
     expand (map (\<lambda>(i, cell). (i, map_option (\<lambda>s. parts (split_first pat s) s) cell)) ser)"

definition str_rsplit :: "ustring \<Rightarrow> series \<Rightarrow> frame" where
  "str_rsplit pat ser =
     expand (map (\<lambda>(i, cell). (i, map_option (\<lambda>s. parts (rsplit_last pat s) s) cell)) ser)"

text \<open>A column of a frame by its number; a column that the frame lacks raises \<open>KeyError\<close>.\<close>

definition column :: "nat \<Rightarrow> frame \<Rightarrow> error + series" where
  "column k df =
     (if k < ncols df then Inr (map (\<lambda>(i, cs). (i, cs ! k)) (rows df)) else Inl KeyError)"

definition dropna :: "series \<Rightarrow> series" where
  "dropna ser = filter (\<lambda>(i, cell). cell \<noteq> None) ser"

text \<open>
  \<open>replace_trailing_text\<close>: where the cell of the column ends with the pattern
  (\<open>.str[idx:] == pattern\<close>, with \<open>idx = -len(pattern)\<close>) the pattern is cut off
  (\<open>.str[:idx]\<close>).
\<close>

definition cut_trailing :: "ustring \<Rightarrow> ustring \<Rightarrow> ustring" where
  "cut_trailing pattern s =
     (if length pattern \<le> length s \<and> drop (length s - length pattern) s = pattern
      then take (length s - length pattern) s else s)"

definition replace_trailing_text :: "frame \<Rightarrow> nat \<Rightarrow> ustring \<Rightarrow> error + frame" where
  "replace_trailing_text df col_name pattern =
     (if col_name < ncols df
      then Inr (df\<lparr>rows := map (\<lambda>(i, cs). (i, cs[col_name := map_option (cut_trailing pattern)
                                                                  (cs ! col_name)]))
                               (rows df)\<rparr>)
      else Inl KeyError)"

text \<open>
  \<open>split_on_last_newline\<close>: what follows the last newline, for the rows that have one.
  The method reads the column \<open>number_1\<close> of the split without a test, so it raises
  \<open>KeyError\<close> when no cell holds a newline.
\<close>

definition split_on_last_newline :: "series \<Rightarrow> error + series" where
  "split_on_last_newline ser =
     (case column 1 (str_rsplit [NL] ser) of
        Inl e \<Rightarrow> Inl e
      | Inr number_1 \<Rightarrow> Inr (dropna number_1))"

text \<open>
  \<open>desc_hyphens_last_line\<close>: the pattern and what follows its last occurrence, for the rows
  that hold the pattern. It tests that the split has a column \<open>number_1\<close>.
\<close>

definition desc_hyphens_last_line :: "series \<Rightarrow> ustring \<Rightarrow> series" where
  "desc_hyphens_last_line ser pattern =
     (case column 1 (str_rsplit pattern ser) of
        Inr number_1 \<Rightarrow> dropna (map (\<lambda>(i, cell). (i, map_option (\<lambda>s. pattern @ s) cell)) number_1)
      | Inl e \<Rightarrow> [])"

text \<open>
  \<open>desc_bullets\<close>: the split at the first occurrence of the pattern; the cut of a
  trailing \<open>"\n "\<close> and then of a trailing \<open>"\n"\<close> from the first part; the last line of
  that first part; and the sum \<open>first_line + pattern + number_1\<close>, which has a value in
  the rows where both Series have one. None of the columns is tested for.
\<close>

definition desc_bullets :: "series \<Rightarrow> ustring \<Rightarrow> error + series" where
  "desc_bullets ser pattern =
     (case replace_trailing_text (str_split pattern ser) 0 [NL, SPACE] of
        Inl e \<Rightarrow> Inl e
      | Inr cols1 \<Rightarrow>
     (case replace_trailing_text cols1 0 [NL] of
        Inl e \<Rightarrow> Inl e
      | Inr new_desc_cols \<Rightarrow>
     (case column 0 new_desc_cols of
        Inl e \<Rightarrow> Inl e
      | Inr number_0 \<Rightarrow>
     (case split_on_last_newline number_0 of
        Inl e \<Rightarrow> Inl e
      | Inr first_line \<Rightarrow>
     (case column 1 new_desc_cols of
        Inl e \<Rightarrow> Inl e
      | Inr number_1 \<Rightarrow>
          Inr (dropna (map (\<lambda>(i, cell).
                              (i, case (map_of first_line i, cell) of
                                    (Some (Some l), Some s) \<Rightarrow> Some (l @ pattern @ s)
                                  | _ \<Rightarrow> None))
                           number_1)))))))"

text \<open>\<open>df[~df.index.isin(ser.index)]\<close>: the rows whose label is not a label of \<open>ser\<close>.\<close>

definition not_isin :: "series \<Rightarrow> series \<Rightarrow> series" where
  "not_isin df ser = filter (\<lambda>(i, cell). i \<notin> fst ` set ser) df"

text \<open>
  \<open>extract_commodity_description\<close>. The renaming of the Series has no part in the model;
  \<open>sort_index\<close> sorts the rows by their labels.
\<close>

definition extract_commodity_description :: "series \<Rightarrow> error + series" where
  "extract_commodity_description df =
     (let single_hyphen_rows = filter (\<lambda>(i, cell). cell = Some [HYPHEN]) df;
          df_cut1 = not_isin df single_hyphen_rows;
          hyphens_no_spc = desc_hyphens_last_line df_cut1 [NL, HYPHEN, HYPHEN];
          df_cut2 = not_isin df_cut1 hyphens_no_spc;
          hyphens_spc = desc_hyphens_last_line df_cut2 [NL, HYPHEN, SPACE, HYPHEN];
          df_cut3 = not_isin df_cut2 hyphens_spc
      in case desc_bullets df_cut3 [NL, HYPHEN] of
           Inl e \<Rightarrow> Inl e
         | Inr multi_line_hyphens \<Rightarrow>
     (let df_cut4 = not_isin df_cut3 multi_line_hyphens
      in case desc_bullets df_cut4 [NL, BULLET] of
           Inl e \<Rightarrow> Inl e
         | Inr multi_line_bullets \<Rightarrow>
     (let df_cut5 = not_isin df_cut4 multi_line_bullets
      in case split_on_last_newline df_cut5 of
           Inl e \<Rightarrow> Inl e
         | Inr last_line \<Rightarrow>
     (let df_cut6 = not_isin df_cut5 last_line;
          single_line_desc = df_cut6
      in Inr (sort_key fst
                (single_hyphen_rows @ hyphens_no_spc @ hyphens_spc @ multi_line_hyphens
                 @ multi_line_bullets @ last_line @ single_line_desc))))))"

text \<open>
  A Series \<open>picked\<close> is selected from \<open>df\<close> when its rows are some of the rows of a Series
  with the labels of \<open>df\<close>, in the same order.
\<close>

definition selected_from :: "series \<Rightarrow> series \<Rightarrow> bool" where
  "selected_from picked df = (\<exists>ser keep. picked = filter keep ser \<and> map fst ser = map fst df)"

chapter \<open>Properties\<close>

section \<open>text-summariser: the checks of \<open>set_summary_bounds\<close>\<close>

lemma set_summary_bounds_ints:
  "set_summary_bounds f nw p q (ArgTuple (map PyInt ns)) =
     (if length ns \<noteq> 2 \<or> ns ! 0 \<ge> ns ! 1 \<or> ns ! 0 > nw then Inl ValueError
      else Inr (map PyInt ns))"
proof (cases "length ns = 2")
  case False
  then show ?thesis by (simp add: set_summary_bounds_def)
next
  case True
  then obtain a b where ns: "ns = [a, b]"
    by (cases ns; cases "tl ns") auto
  show ?thesis unfolding ns by (auto simp: set_summary_bounds_def split: bool.splits)
qed

lemma int_items_map: "list_all is_PyInt xs \<Longrightarrow> \<exists>ns. xs = map PyInt ns"
proof (induction xs)
  case Nil
  then show ?case by simp
next
  case (Cons x xs)
  then obtain ns where "xs = map PyInt ns" by auto
  moreover from Cons.prems obtain n where "x = PyInt n" by (cases x) auto
  ultimately have "x # xs = map PyInt (n # ns)" by simp
  then show ?case by (rule exI)
qed

text \<open>
  Claim C8, as amended. For an argument other than \<open>None\<close> whose items, when it is a
  tuple, are integers: \<open>TypeError\<close> is raised exactly when the argument is not a tuple;
  \<open>ValueError\<close> is raised exactly when the tuple does not have two items, or its first
  item is greater than or equal to its second, or its first item is greater than
  \<open>num_words\<close>; a tuple that raises nothing is returned unchanged. For \<open>None\<close> the result
  is the pair \<open>(int(num_words * min_percent), int(num_words * max_percent))\<close>, and nothing
  is raised.
\<close>

theorem set_summary_bounds_raises:
  assumes "arg \<noteq> ArgNone" and "int_items arg"
  shows "(set_summary_bounds f nw p q arg = Inl TypeError \<longleftrightarrow> \<not> is_tuple arg)
       \<and> (set_summary_bounds f nw p q arg = Inl ValueError \<longleftrightarrow>
            (\<exists>ns. arg = ArgTuple (map PyInt ns)
                  \<and> (length ns \<noteq> 2 \<or> ns ! 0 \<ge> ns ! 1 \<or> ns ! 0 > nw)))
       \<and> (\<forall>xs. arg = ArgTuple xs \<and> set_summary_bounds f nw p q arg \<noteq> Inl ValueError
              \<longrightarrow> set_summary_bounds f nw p q arg = Inr xs)
       \<and> set_summary_bounds f nw p q ArgNone = Inr [PyInt (f nw p), PyInt (f nw q)]"
proof (cases arg)
  case ArgNone
  with assms show ?thesis by simp
next
  case (ArgTuple xs)
  with assms obtain ns where xs: "xs = map PyInt ns"
    using int_items_map by auto
  show ?thesis unfolding ArgTuple xs set_summary_bounds_ints
    by (auto simp: set_summary_bounds_def inj_on_def dest: map_inj_on)
next
  case (ArgList xs)
  then show ?thesis by (simp add: set_summary_bounds_def)
next
  case (ArgVal v)
  then show ?thesis by (simp add: set_summary_bounds_def)
qed

text \<open>
  The theorem at the bounds \<open>(3, 10)\<close> for a text of 20 words, with percentages held as
  whole per cents: the tuple is returned unchanged, and \<open>None\<close> gives \<open>(2, 16)\<close>.
\<close>

theorem set_summary_bounds_raises_witness:
  "ArgTuple [PyInt 3, PyInt 10] \<noteq> ArgNone \<and> int_items (ArgTuple [PyInt 3, PyInt 10])
   \<and> set_summary_bounds (\<lambda>n p. (n * p) div 100) 20 10 80 (ArgTuple [PyInt 3, PyInt 10])
       = Inr [PyInt 3, PyInt 10]
   \<and> set_summary_bounds (\<lambda>n p. (n * p) div 100) 20 10 80 ArgNone = Inr [PyInt 2, PyInt 16]"
  using set_summary_bounds_raises [of "ArgTuple [PyInt 3, PyInt 10]" "\<lambda>n p. (n * p) div 100" 20 10 80]
  by (simp add: set_summary_bounds_def)

text \<open>
  Claim C8 as stated fails: the tuple \<open>('1', '2')\<close>, a tuple of strings as the
  \<open>--bounds\<close> option of the script (\<open>type=tuple\<close>) makes from its text, passes the length
  check and the comparison of its two items, and the comparison of \<open>'1'\<close> with the integer
  \<open>num_words\<close> raises \<open>TypeError\<close>, although the argument is a tuple.
\<close>

theorem set_summary_bounds_tuple_TypeError:
  "is_tuple (ArgTuple [PyStr ''1'', PyStr ''2''])
   \<and> set_summary_bounds (\<lambda>n p. (n * p) div 100) 5 10 80 (ArgTuple [PyStr ''1'', PyStr ''2''])
       = Inl TypeError"
  by (simp add: set_summary_bounds_def)

section \<open>tariff_analysis: the width of the standardised commodity code\<close>

lemma std_nth:
  "i < length col \<Longrightarrow>
   str_ljust w z (str_replace_nondigits d col) ! i =
     map_option (\<lambda>s. filter d s @ replicate (w - length (filter d s)) z) (col ! i)"
  by (simp add: str_ljust_def str_replace_nondigits_def option.map_comp comp_def)

text \<open>
  Claim C3, as amended. For every data frame that holds the commodity-code column,
  \<open>add_standardised_comm_code\<close> sets the standardised column (appending it when the frame
  has none of that name) and leaves every other column as it was. The new column has one
  cell per cell of the source column: a missing source cell stays missing, and a source
  string gives its digits, in order, followed by zeros up to width 10. The value has
  \<open>max 10 d\<close> characters, where \<open>d\<close> is the number of digits of the source string: exactly
  10 when the source has at most 10 digits, and \<open>d\<close> when it has more, since nothing is
  cut off.
\<close>

theorem add_standardised_comm_code_width:
  assumes "map_of df comm_code_col = Some col"
  shows "\<exists>std. map_of (add_standardised_comm_code isdigit zero df comm_code_col new_col) new_col
               = Some std
          \<and> length std = length col
          \<and> (\<forall>i<length col.
                (col ! i = None \<longrightarrow> std ! i = None)
              \<and> (\<forall>s. col ! i = Some s \<longrightarrow>
                    std ! i = Some (filter isdigit s
                                    @ replicate (10 - length (filter isdigit s)) zero)
                  \<and> length (the (std ! i)) = max 10 (length (filter isdigit s))))
          \<and> (\<forall>c. c \<noteq> new_col \<longrightarrow>
                map_of (add_standardised_comm_code isdigit zero df comm_code_col new_col) c
                  = map_of df c)"
proof -
  let ?std = "str_ljust 10 zero (str_replace_nondigits isdigit col)"
  have df': "add_standardised_comm_code isdigit zero df comm_code_col new_col
               = AList.update new_col ?std df"
    using assms by (simp add: add_standardised_comm_code_def)
  have "map_of (AList.update new_col ?std df) new_col = Some ?std"
    by (simp add: update_conv')
  moreover have "length ?std = length col"
    by (simp add: str_ljust_def str_replace_nondigits_def)
  moreover have "\<forall>i<length col.
                (col ! i = None \<longrightarrow> ?std ! i = None)
              \<and> (\<forall>s. col ! i = Some s \<longrightarrow>
                    ?std ! i = Some (filter isdigit s
                                    @ replicate (10 - length (filter isdigit s)) zero)
                  \<and> length (the (?std ! i)) = max 10 (length (filter isdigit s)))"
    by (auto simp: std_nth)
  moreover have "\<forall>c. c \<noteq> new_col \<longrightarrow> map_of (AList.update new_col ?std df) c = map_of df c"
    by (simp add: update_conv')
  ultimately show ?thesis unfolding df' by blast
qed

text \<open>The examples of the function's docstring.\<close>

lemma add_standardised_comm_code_examples:
  "add_standardised_comm_code ascii_digit (CHR ''0'')
     [(COMM_CODE, [Some ''0101'', Some ''0101 01'', Some ''0101.01'', Some ''0101 01 01 01'',
                   Some ''0101.01.01.01''])] COMM_CODE STANDARD_COMM_CODE
   = [(COMM_CODE, [Some ''0101'', Some ''0101 01'', Some ''0101.01'', Some ''0101 01 01 01'',
                   Some ''0101.01.01.01'']),
      (STANDARD_COMM_CODE, [Some ''0101000000'', Some ''0101010000'', Some ''0101010000'',
                            Some ''0101010101'', Some ''0101010101''])]"
  by code_simp

text \<open>The theorem on a frame of two rows, \<open>"0101.01"\<close> and a missing cell.\<close>

theorem add_standardised_comm_code_width_witness:
  "map_of [(COMM_CODE, [Some ''0101.01'', None])] COMM_CODE = Some [Some ''0101.01'', None]
   \<and> (\<exists>std. map_of (add_standardised_comm_code ascii_digit (CHR ''0'')
                        [(COMM_CODE, [Some ''0101.01'', None])] COMM_CODE STANDARD_COMM_CODE)
                STANDARD_COMM_CODE = Some std
            \<and> length std = 2 \<and> std ! 0 = Some ''0101010000'' \<and> std ! 1 = None)"
proof -
  have h: "map_of [(COMM_CODE, [Some ''0101.01'', None])] COMM_CODE
             = Some [Some ''0101.01'', None]"
    by simp
  have d: "filter ascii_digit ''0101.01'' = ''010101''"
    by (simp add: ascii_digit_def)
  from add_standardised_comm_code_width [OF h, of ascii_digit "CHR ''0''" STANDARD_COMM_CODE]
  obtain std where std:
    "map_of (add_standardised_comm_code ascii_digit (CHR ''0'')
               [(COMM_CODE, [Some ''0101.01'', None])] COMM_CODE STANDARD_COMM_CODE)
       STANDARD_COMM_CODE = Some std"
    "length std = length [Some ''0101.01'', None :: char cell]"
    "\<forall>i<length [Some ''0101.01'', None :: char cell].
        ([Some ''0101.01'', None] ! i = None \<longrightarrow> std ! i = None)
      \<and> (\<forall>s. [Some ''0101.01'', None] ! i = Some s \<longrightarrow>
            std ! i = Some (filter ascii_digit s
                            @ replicate (10 - length (filter ascii_digit s)) (CHR ''0''))
          \<and> length (the (std ! i)) = max 10 (length (filter ascii_digit s)))"
    by blast
  from std(3) have "std ! 0 = Some (filter ascii_digit ''0101.01''
       @ replicate (10 - length (filter ascii_digit ''0101.01'')) (CHR ''0''))"
    by force
  then have s0: "std ! 0 = Some ''0101010000''"
    unfolding d by (simp add: numeral_eq_Suc)
  from std(3) have s1: "std ! 1 = None"
    by force
  from h std(1,2) s0 s1 show ?thesis by simp
qed

text \<open>
  Claim C3 as stated fails: a commodity code of eleven digits, \<open>"0101 01 01 01 5"\<close>,
  gives a standardised value of eleven characters, and a missing cell gives no string.
\<close>

theorem add_standardised_comm_code_eleven_digits:
  "map_of (add_standardised_comm_code ascii_digit (CHR ''0'')
             [(COMM_CODE, [Some ''0101 01 01 01 5'', None])] COMM_CODE STANDARD_COMM_CODE)
       STANDARD_COMM_CODE
     = Some [Some ''01010101015'', None]
   \<and> length ''01010101015'' = 11"
  by (simp add: add_standardised_comm_code_def str_ljust_def str_replace_nondigits_def
      ascii_digit_def COMM_CODE_def STANDARD_COMM_CODE_def)

section \<open>enquiries-classification: the model \<open>run_trainer\<close> selects\<close>






section \<open>enquiries-classification: every grid search fails\<close>

lemma train_loop_all_fail:
  assumes "\<forall>c\<in>set cfgs. grid c = FitRaises"
  shows "train_loop grid (\<lparr>model = None, score = - 1\<rparr>, r) cfgs
           = Inr (\<lparr>model = None, score = - 1\<rparr>, r @ cfgs)"
  using assms
  by (induction cfgs arbitrary: r) (simp_all add: train_single_model_def)

text \<open>
  Claim C9. When the fit of every configured model raises, \<open>train_all_models\<close> returns
  \<open>None\<close>, having run every grid search, and \<open>run_trainer\<close> with \<open>save_model\<close> set (the
  default) raises \<open>TypeError\<close> from the subscript \<open>best_model["model"]\<close>, with nothing
  saved. Without \<open>save_model\<close> it does not reach the subscript, and returns \<open>None\<close>.
\<close>

theorem run_trainer_all_fail:
  assumes "\<forall>c\<in>set model_params. grid c = FitRaises"
  shows "train_all_models grid model_params = Inr (None, model_params)
       \<and> run_trainer grid writable model_params model_path True files = (Inl TypeError, files)
       \<and> run_trainer grid writable model_params model_path False files = (Inr None, files)"
proof -
  have "train_loop grid (\<lparr>model = None, score = - 1\<rparr>, []) model_params
          = Inr (\<lparr>model = None, score = - 1\<rparr>, model_params)"
    using train_loop_all_fail [OF assms, of "[]"] by simp
  then have 1: "train_all_models grid model_params = Inr (None, model_params)"
    by (simp add: train_all_models_def)
  then show ?thesis by (simp add: run_trainer_def)
qed

text \<open>The theorem on two configured models, both failing.\<close>

theorem run_trainer_all_fail_witness:
  "list_all (\<lambda>c. (\<lambda>c. FitRaises :: string outcome) c = FitRaises) [''knn'', ''mlp'']
   \<and> train_all_models (\<lambda>c. FitRaises :: string outcome) [''knn'', ''mlp'']
       = Inr (None, [''knn'', ''mlp''])
   \<and> run_trainer (\<lambda>c. FitRaises :: string outcome) (\<lambda>p. True) [''knn'', ''mlp'']
         ''models/model.pkl'' True Map.empty = (Inl TypeError, Map.empty)"
proof -
  have h: "\<forall>c\<in>set [''knn'', ''mlp'']. (\<lambda>c. FitRaises :: string outcome) c = FitRaises"
    by simp
  from run_trainer_all_fail [OF h, of "\<lambda>p. True" "''models/model.pkl''" Map.empty]
  show ?thesis by simp
qed

section \<open>topic_modelling: the candidates that are trained and what is persisted\<close>

lemma models_loop_map:
  "models_loop lda c_v acc r
     = acc @ map (\<lambda>i. \<lparr>topics = i, lda_model = lda i, coherence = c_v (lda i)\<rparr>) r"
  by (induction r arbitrary: acc) simp_all

lemma range_from_up_set:
  "0 < stp \<Longrightarrow>
   set (range_from i hi stp) = {x. i \<le> x \<and> x < hi \<and> stp dvd (x - i)}"
proof (induction i hi stp rule: range_from.induct)
  case (1 i hi stp)
  show ?case
  proof (cases "i < hi")
    case False
    with "1.prems" have "range_from i hi stp = []"
      by (simp add: range_from.simps [of i hi stp])
    with False show ?thesis by auto
  next
    case True
    with "1.prems" have unfold: "range_from i hi stp = i # range_from (i + stp) hi stp"
      by (simp add: range_from.simps [of i hi stp])
    from True "1.prems" have IH:
      "set (range_from (i + stp) hi stp)
         = {x. i + stp \<le> x \<and> x < hi \<and> stp dvd (x - (i + stp))}"
      using "1.IH" by simp
    have "{x. i \<le> x \<and> x < hi \<and> stp dvd (x - i)}
            = insert i {x. i + stp \<le> x \<and> x < hi \<and> stp dvd (x - (i + stp))}"
    proof (intro set_eqI iffI)
      fix x assume "x \<in> {x. i \<le> x \<and> x < hi \<and> stp dvd (x - i)}"
      then have x: "i \<le> x" "x < hi" "stp dvd (x - i)" by simp_all
      show "x \<in> insert i {x. i + stp \<le> x \<and> x < hi \<and> stp dvd (x - (i + stp))}"
      proof (cases "x = i")
        case True
        then show ?thesis by simp
      next
        case False
        with x(1) have "0 < x - i" by simp
        with x(3) have "stp \<le> x - i" by (rule zdvd_imp_le)
        moreover have "stp dvd (x - (i + stp))"
        proof -
          have eq: "x - (i + stp) = (x - i) - stp" by simp
          show ?thesis unfolding eq using x(3) by (rule dvd_diff) (rule dvd_refl)
        qed
        ultimately show ?thesis using x(2) by simp
      qed
    next
      fix x assume "x \<in> insert i {x. i + stp \<le> x \<and> x < hi \<and> stp dvd (x - (i + stp))}"
      then consider "x = i" | "i + stp \<le> x" "x < hi" "stp dvd (x - (i + stp))" by auto
      then show "x \<in> {x. i \<le> x \<and> x < hi \<and> stp dvd (x - i)}"
      proof cases
        case 1
        with True show ?thesis by simp
      next
        case 2
        have "x - i = (x - (i + stp)) + stp" by simp
        with 2(3) have "stp dvd (x - i)" by (metis dvd_add_triv_right_iff)
        with 2 "1.prems" show ?thesis by simp
      qed
    qed
    with unfold IH show ?thesis by simp
  qed
qed

lemma range_from_up_sorted:
  "0 < stp \<Longrightarrow> sorted_wrt (<) (range_from i hi stp)"
proof (induction i hi stp rule: range_from.induct)
  case (1 i hi stp)
  show ?case
  proof (cases "i < hi")
    case False
    with "1.prems" have "range_from i hi stp = []"
      by (simp add: range_from.simps [of i hi stp])
    then show ?thesis by simp
  next
    case True
    with "1.prems" have unfold: "range_from i hi stp = i # range_from (i + stp) hi stp"
      by (simp add: range_from.simps [of i hi stp])
    from True "1.prems" have "sorted_wrt (<) (range_from (i + stp) hi stp)"
      using "1.IH" by simp
    moreover have "\<forall>x\<in>set (range_from (i + stp) hi stp). i < x"
      using range_from_up_set [OF "1.prems", of "i + stp" hi] "1.prems" by auto
    ultimately show ?thesis unfolding unfold by simp
  qed
qed


text \<open>
  Claim C2, as amended. With \<open>single_model\<close> false and a positive step,
  \<open>get_models_and_coherence\<close> returns one candidate for every topic count of the
  configured range, in increasing order: the counts from \<open>start\<close>, below \<open>limit\<close>, at
  multiples of \<open>step\<close> from \<open>start\<close>; each candidate pairs the model trained for that
  count with that model's coherence. The \<open>run_lda\<close> driver then persists this whole list
  of candidates in the models file: it selects no best model.
\<close>

theorem run_lda_persists_candidates:
  assumes "0 < step tr"
  shows "\<exists>r. py_range (start tr) (limit tr) (step tr) = Inr r
           \<and> sorted_wrt (<) r
           \<and> set r = {i. start tr \<le> i \<and> i < limit tr \<and> step tr dvd (i - start tr)}
           \<and> get_models_and_coherence lda c_v num_topics False tr
               = Inr (map (\<lambda>i. \<lparr>topics = i, lda_model = lda i, coherence = c_v (lda i)\<rparr>) r)
           \<and> (\<exists>files'. run_lda lda c_v True dct corpus num_topics False tr files
                  = Inr ((dct, corpus,
                          map (\<lambda>i. \<lparr>topics = i, lda_model = lda i, coherence = c_v (lda i)\<rparr>) r),
                         files')
                \<and> files' ''models/models_coherence.pkl''
                  = Some (ModelsFile
                      (map (\<lambda>i. \<lparr>topics = i, lda_model = lda i, coherence = c_v (lda i)\<rparr>) r)))"
proof -
  let ?r = "range_from (start tr) (limit tr) (step tr)"
  let ?mk = "\<lambda>i. \<lparr>topics = i, lda_model = lda i, coherence = c_v (lda i)\<rparr>"
  let ?files' = "save_artifacts dct corpus (map ?mk ?r)
                   (files(''vis/coherence.png'' \<mapsto> PlotFile ?r (map coherence (map ?mk ?r))))"
  have 1: "py_range (start tr) (limit tr) (step tr) = Inr ?r"
    using assms by (simp add: py_range_def)
  have 2: "sorted_wrt (<) ?r"
    using assms by (rule range_from_up_sorted)
  have 3: "set ?r = {i. start tr \<le> i \<and> i < limit tr \<and> step tr dvd (i - start tr)}"
    using assms by (rule range_from_up_set)
  have 4: "get_models_and_coherence lda c_v num_topics False tr = Inr (map ?mk ?r)"
    by (simp add: get_models_and_coherence_def 1 models_loop_map)
  have plot: "save_coherence_plot tr (map coherence (map ?mk ?r)) files
                = Inr (files(''vis/coherence.png'' \<mapsto> PlotFile ?r (map coherence (map ?mk ?r))))"
    by (simp add: save_coherence_plot_def 1)
  have rtm: "run_topic_modelling lda c_v dct corpus num_topics False tr True files
               = Inr ((dct, corpus, map ?mk ?r),
                      files(''vis/coherence.png'' \<mapsto> PlotFile ?r (map coherence (map ?mk ?r))))"
    unfolding run_topic_modelling_def 4 using plot by simp
  have 5: "run_lda lda c_v True dct corpus num_topics False tr files
             = Inr ((dct, corpus, map ?mk ?r), ?files')"
    unfolding run_lda_def rtm by simp
  have 6: "?files' ''models/models_coherence.pkl'' = Some (ModelsFile (map ?mk ?r))"
    by (simp add: save_artifacts_def)
  have "\<exists>files'. run_lda lda c_v True dct corpus num_topics False tr files
                  = Inr ((dct, corpus, map ?mk ?r), files')
                \<and> files' ''models/models_coherence.pkl'' = Some (ModelsFile (map ?mk ?r))"
    by (rule exI [of _ ?files'], intro conjI) (rule 5, rule 6)
  with 1 2 3 4 show ?thesis
    by (intro exI [of _ ?r] conjI)
qed

text \<open>The theorem on the range from 2 below 5 in steps of 1.\<close>

theorem run_lda_persists_candidates_witness:
  "0 < step \<lparr>start = 2, limit = 5, step = 1\<rparr>
   \<and> get_models_and_coherence (\<lambda>i. i) example_c_v None False \<lparr>start = 2, limit = 5, step = 1\<rparr>
       = Inr [\<lparr>topics = 2, lda_model = 2, coherence = 0.4\<rparr>,
              \<lparr>topics = 3, lda_model = 3, coherence = 0.5\<rparr>,
              \<lparr>topics = 4, lda_model = 4, coherence = 0.4\<rparr>]"
proof -
  have h: "0 < step \<lparr>start = 2, limit = 5, step = 1\<rparr>" by simp
  have r: "range_from 2 5 1 = [2, 3, 4]"
    by (simp add: range_from.simps)
  from run_lda_persists_candidates [OF h, of "\<lambda>i. i" example_c_v None "()" "()" Map.empty]
  obtain r where
    "py_range 2 5 1 = Inr r"
    "get_models_and_coherence (\<lambda>i. i) example_c_v None False \<lparr>start = 2, limit = 5, step = 1\<rparr>
       = Inr (map (\<lambda>i. \<lparr>topics = i, lda_model = i, coherence = example_c_v i\<rparr>) r)"
    by auto
  then show ?thesis
    using r by (auto simp: py_range_def example_c_v_def)
qed

text \<open>
  Claim C2 as stated fails: on the range from 2 below 5, where the model of three topics
  scores best, the driver persists all three candidates, among them the model of two
  topics, whose coherence is lower.
\<close>

theorem run_lda_persists_all_models:
  "\<exists>files'. run_lda (\<lambda>i. i) example_c_v True () () None False
                \<lparr>start = 2, limit = 5, step = 1\<rparr> Map.empty
              = Inr (((), (), [\<lparr>topics = 2, lda_model = 2, coherence = 0.4\<rparr>,
                               \<lparr>topics = 3, lda_model = 3, coherence = 0.5\<rparr>,
                               \<lparr>topics = 4, lda_model = 4, coherence = 0.4\<rparr>]), files')
      \<and> files' ''models/models_coherence.pkl''
          = Some (ModelsFile [\<lparr>topics = 2, lda_model = 2, coherence = 0.4\<rparr>,
                              \<lparr>topics = 3, lda_model = 3, coherence = 0.5\<rparr>,
                              \<lparr>topics = 4, lda_model = 4, coherence = 0.4\<rparr>])
      \<and> coherence \<lparr>topics = 2, lda_model = 2 :: int, coherence = 0.4\<rparr>
          < coherence \<lparr>topics = 3, lda_model = 3 :: int, coherence = 0.5\<rparr>"
proof -
  have r: "range_from 2 5 1 = [2, 3, 4]"
    by (simp add: range_from.simps)
  show ?thesis
    by (simp add: run_lda_def run_topic_modelling_def get_models_and_coherence_def
        save_coherence_plot_def save_artifacts_def py_range_def r example_c_v_def)
qed

section \<open>File reads: which failures are handled where\<close>

text \<open>
  Claim C6, as amended. Whatever exception the read raises, \<open>get_raw_data_from_file\<close> and
  \<open>get_csv_data\<close> log it at level critical and end the process with exit code 1; they
  raise nothing else to their caller. \<open>load_processed_text\<close> catches the failed read when
  it is a \<open>FileNotFoundError\<close>, prints it and returns \<open>None\<close>; every other failure of the
  read is raised to its caller, with nothing printed.
\<close>

theorem file_read_failures:
  "get_raw_data_from_file (ReadRaises err) logs = (Exits 1, logs @ [Printed, Logged CRITICAL])
   \<and> get_csv_data (ReadRaises err) logs = (Exits 1, logs @ [Logged CRITICAL])
   \<and> load_processed_text (ReadRaises FileNotFoundError) logs = (Returns None, logs @ [Printed])
   \<and> (err \<noteq> FileNotFoundError
        \<longrightarrow> load_processed_text (ReadRaises err) logs = (Raises err, logs))"
  by (simp add: get_raw_data_from_file_def get_csv_data_def load_processed_text_def)

text \<open>The theorem on a file that does not hold valid JSON.\<close>

theorem file_read_failures_witness:
  "JSONDecodeError \<noteq> FileNotFoundError
   \<and> get_csv_data (ReadRaises JSONDecodeError :: unit file_read) [] = (Exits 1, [Logged CRITICAL])
   \<and> load_processed_text (ReadRaises JSONDecodeError :: unit file_read) []
       = (Raises JSONDecodeError, [])"
  using file_read_failures [where ?'a = unit and ?'b = unit and ?'c = unit and ?'d = unit,
      of JSONDecodeError "[]"]
  by simp

text \<open>
  Claim C6 as stated fails: a read that fails for lack of permission is not caught by
  \<open>load_processed_text\<close>; the exception reaches the caller and no fallback is returned.
\<close>

theorem load_processed_text_propagates:
  "fst (load_processed_text (ReadRaises PermissionError :: string list file_read) [])
     = Raises PermissionError"
  by (simp add: load_processed_text_def)

section \<open>google-analytics: the delays of \<open>poll_site\<close>\<close>

lemma sleeps_append: "sleeps (xs @ ys) = sleeps xs @ sleeps ys"
  by (induction xs rule: sleeps.induct) simp_all

lemma sleeps_emit:
  "sleeps (trace (emit e w)) = sleeps (trace w) @ (case e of Sleep d \<Rightarrow> [d] | _ \<Rightarrow> [])"
  by (cases e) (simp_all add: emit_def sleeps_append)

lemma click_count_emit: "click_count (emit e w) = click_count w"
  by (simp add: emit_def)

lemma time_sleep_WAIT_TIME: "time_sleep WAIT_TIME w = (None, emit (Sleep WAIT_TIME) w)"
  by (simp add: time_sleep_def WAIT_TIME_def)

lemma click_element_state:
  "sleeps (trace (snd (click_element located url elem_id w))) = sleeps (trace w)
   \<and> dom (click_count (snd (click_element located url elem_id w))) = dom (click_count w)
   \<and> (elem_id \<in> dom (click_count w) \<longrightarrow> fst (click_element located url elem_id w) = None)"
  by (auto simp: click_element_def sleeps_emit click_count_emit split: option.splits)

lemma random_choice_state:
  "trace (snd (random_choice draws seq w)) = trace w
   \<and> click_count (snd (random_choice draws seq w)) = click_count w
   \<and> (\<forall>x. fst (random_choice draws seq w) = Inr x \<longrightarrow> x \<in> set seq)
   \<and> (seq \<noteq> [] \<longrightarrow> (\<exists>x. fst (random_choice draws seq w) = Inr x))"
  by (simp add: random_choice_def)

text \<open>
  The configuration and the counts fit when the import of the module has built the keys
  of \<open>click_count\<close> and every value of \<open>INDEX\<close> is one of them.
\<close>

lemma subscript_Inr: "subscript d k = Inr v \<Longrightarrow> d \<noteq> []"
  by (auto simp: subscript_def)

lemma fit_subscripts:
  assumes "initial_click_count cfg = Inr cc"
  shows "INDEX_values cfg \<noteq> []
       \<and> (\<exists>g. subscript (GRAPHS cfg) ''ID'' = Inr g \<and> g \<in> dom cc)
       \<and> (\<exists>m. subscript (MAPS cfg) ''ID'' = Inr m \<and> m \<in> dom cc)
       \<and> (\<exists>c. subscript (CAROUSEL cfg) ''ID'' = Inr c \<and> c \<in> dom cc)"
proof (cases "subscript (INDEX cfg) ''RED_BTN_ID''")
  case Inl
  with assms show ?thesis by (simp add: initial_click_count_def)
next
  case (Inr red)
  note r = this
  show ?thesis
  proof (cases "subscript (INDEX cfg) ''YELLOW_BTN_ID''")
    case Inl
    with assms r show ?thesis by (simp add: initial_click_count_def)
  next
    case (Inr yellow)
    note y = this
    show ?thesis
    proof (cases "subscript (INDEX cfg) ''GREEN_BTN_ID''")
      case Inl
      with assms r y show ?thesis by (simp add: initial_click_count_def)
    next
      case (Inr green)
      note gn = this
      show ?thesis
      proof (cases "subscript (GRAPHS cfg) ''ID''")
        case Inl
        with assms r y gn show ?thesis by (simp add: initial_click_count_def)
      next
        case (Inr graphs)
        note g = this
        show ?thesis
        proof (cases "subscript (MAPS cfg) ''ID''")
          case Inl
          with assms r y gn g show ?thesis by (simp add: initial_click_count_def)
        next
          case (Inr maps)
          note m = this
          show ?thesis
          proof (cases "subscript (CAROUSEL cfg) ''ID''")
            case Inl
            with assms r y gn g m show ?thesis by (simp add: initial_click_count_def)
          next
            case (Inr carousel)
            with assms r y gn g m
            have cc: "cc = Map.empty(red \<mapsto> 0, yellow \<mapsto> 0, green \<mapsto> 0, graphs \<mapsto> 0,
                                  maps \<mapsto> 0, carousel \<mapsto> 0)"
              by (simp add: initial_click_count_def)
            from r have "INDEX cfg \<noteq> []" by (rule subscript_Inr)
            then have "INDEX_values cfg \<noteq> []" by (simp add: INDEX_values_def)
            moreover have "graphs \<in> dom cc" "maps \<in> dom cc" "carousel \<in> dom cc"
              by (simp_all add: cc)
            ultimately show ?thesis using g m Inr by simp
          qed
        qed
      qed
    qed
  qed
qed

lemma page_click_sleeps:
  "sleeps (trace (snd (case subscript d k of
                         Inl e \<Rightarrow> (Some e, w)
                       | Inr elem_id \<Rightarrow> click_element located url elem_id w)))
     = sleeps (trace w)"
  by (cases "subscript d k") (simp_all add: click_element_state)

lemma home_click_sleeps:
  "sleeps (trace (snd (case random_choice draws seq w of
                         (Inl e, w') \<Rightarrow> (Some e, w')
                       | (Inr btn_id, w') \<Rightarrow> click_element located url btn_id w')))
     = sleeps (trace w)"
proof (cases "random_choice draws seq w")
  case (Pair r w')
  with random_choice_state [of draws seq w] have "trace w' = trace w" by simp
  with Pair show ?thesis by (cases r) (simp_all add: click_element_state)
qed

lemma click_loop_sleeps:
  "\<exists>k\<le>n. sleeps (trace (snd (click_loop draws cfg located url suffix n w)))
            = sleeps (trace w) @ replicate k WAIT_TIME
        \<and> (fst (click_loop draws cfg located url suffix n w) = None \<longrightarrow> k = n)"
proof (induction n arbitrary: w)
  case 0
  show ?case by simp
next
  case (Suc n)
  let ?body = "if suffix = [] \<or> hd suffix = CHR ''?'' then
              (case random_choice draws (INDEX_values cfg) w of
                 (Inl e, w') \<Rightarrow> (Some e, w')
               | (Inr btn_id, w') \<Rightarrow> click_element located url btn_id w')
            else if suffix = ''graphs'' then
              (case subscript (GRAPHS cfg) ''ID'' of
                 Inl e \<Rightarrow> (Some e, w)
               | Inr elem_id \<Rightarrow> click_element located url elem_id w)
            else if suffix = ''maps'' then
              (case subscript (MAPS cfg) ''ID'' of
                 Inl e \<Rightarrow> (Some e, w)
               | Inr elem_id \<Rightarrow> click_element located url elem_id w)
            else if suffix = ''carousel'' then
              (case subscript (CAROUSEL cfg) ''ID'' of
                 Inl e \<Rightarrow> (Some e, w)
               | Inr elem_id \<Rightarrow> click_element located url elem_id w)
            else if suffix = ''about'' then (None, w)
            else (None, emit Unexpected w)"
  have body: "sleeps (trace (snd ?body)) = sleeps (trace w)"
    by (simp add: page_click_sleeps home_click_sleeps sleeps_emit)
  show ?case
  proof (cases "fst ?body")
    case (Some e)
    then have "click_loop draws cfg located url suffix (Suc n) w = (Some e, snd ?body)"
      by (cases ?body) simp
    with body have "0 \<le> Suc n
        \<and> sleeps (trace (snd (click_loop draws cfg located url suffix (Suc n) w)))
            = sleeps (trace w) @ replicate 0 WAIT_TIME
        \<and> (fst (click_loop draws cfg located url suffix (Suc n) w) = None \<longrightarrow> 0 = Suc n)"
      by simp
    then show ?thesis by (rule exI)
  next
    case None
    let ?w1 = "emit (Sleep WAIT_TIME) (snd ?body)"
    from None have eq: "click_loop draws cfg located url suffix (Suc n) w
                      = click_loop draws cfg located url suffix n ?w1"
      by (cases ?body) (simp add: time_sleep_WAIT_TIME)
    from Suc.IH [of ?w1] obtain k where k: "k \<le> n
      \<and> sleeps (trace (snd (click_loop draws cfg located url suffix n ?w1)))
            = sleeps (trace ?w1) @ replicate k WAIT_TIME
      \<and> (fst (click_loop draws cfg located url suffix n ?w1) = None \<longrightarrow> k = n)"
      ..
    have "sleeps (trace ?w1) = sleeps (trace w) @ [WAIT_TIME]"
      using body by (simp add: sleeps_emit)
    with k have "Suc k \<le> Suc n
        \<and> sleeps (trace (snd (click_loop draws cfg located url suffix (Suc n) w)))
            = sleeps (trace w) @ replicate (Suc k) WAIT_TIME
        \<and> (fst (click_loop draws cfg located url suffix (Suc n) w) = None \<longrightarrow> Suc k = Suc n)"
      unfolding eq by simp
    then show ?thesis by (rule exI)
  qed
qed

lemma click_loop_returns:
  assumes cc: "initial_click_count cfg = Inr cc"
    and vals: "set (INDEX_values cfg) \<subseteq> dom cc"
  shows "dom (click_count w) = dom cc \<Longrightarrow>
         fst (click_loop draws cfg located url suffix n w) = None
         \<and> dom (click_count (snd (click_loop draws cfg located url suffix n w))) = dom cc"
proof (induction n arbitrary: w)
  case 0
  then show ?case by simp
next
  case (Suc n)
  note fit = fit_subscripts [OF cc]
  from fit [THEN conjunct2, THEN conjunct1]
  obtain g where g: "subscript (GRAPHS cfg) ''ID'' = Inr g \<and> g \<in> dom cc" ..
  from fit [THEN conjunct2, THEN conjunct2, THEN conjunct1]
  obtain m where m: "subscript (MAPS cfg) ''ID'' = Inr m \<and> m \<in> dom cc" ..
  from fit [THEN conjunct2, THEN conjunct2, THEN conjunct2]
  obtain c where c: "subscript (CAROUSEL cfg) ''ID'' = Inr c \<and> c \<in> dom cc" ..
  from fit have ne: "INDEX_values cfg \<noteq> []" by (rule conjunct1)
  let ?body = "if suffix = [] \<or> hd suffix = CHR ''?'' then
              (case random_choice draws (INDEX_values cfg) w of
                 (Inl e, w') \<Rightarrow> (Some e, w')
               | (Inr btn_id, w') \<Rightarrow> click_element located url btn_id w')
            else if suffix = ''graphs'' then
              (case subscript (GRAPHS cfg) ''ID'' of
                 Inl e \<Rightarrow> (Some e, w)
               | Inr elem_id \<Rightarrow> click_element located url elem_id w)
            else if suffix = ''maps'' then
              (case subscript (MAPS cfg) ''ID'' of
                 Inl e \<Rightarrow> (Some e, w)
               | Inr elem_id \<Rightarrow> click_element located url elem_id w)
            else if suffix = ''carousel'' then
              (case subscript (CAROUSEL cfg) ''ID'' of
                 Inl e \<Rightarrow> (Some e, w)
               | Inr elem_id \<Rightarrow> click_element located url elem_id w)
            else if suffix = ''about'' then (None, w)
            else (None, emit Unexpected w)"
  have home: "fst (case random_choice draws (INDEX_values cfg) w of
                 (Inl e, w') \<Rightarrow> (Some e, w')
               | (Inr btn_id, w') \<Rightarrow> click_element located url btn_id w') = None
            \<and> dom (click_count (snd (case random_choice draws (INDEX_values cfg) w of
                 (Inl e, w') \<Rightarrow> (Some e, w')
               | (Inr btn_id, w') \<Rightarrow> click_element located url btn_id w'))) = dom cc"
  proof -
    note rc = random_choice_state [of draws "INDEX_values cfg" w]
    from ne have "\<exists>x. fst (random_choice draws (INDEX_values cfg) w) = Inr x"
      by (simp add: random_choice_def)
    then obtain x where x: "fst (random_choice draws (INDEX_values cfg) w) = Inr x" ..
    have "x \<in> set (INDEX_values cfg)"
      by (rule rc [THEN conjunct2, THEN conjunct2, THEN conjunct1, rule_format, OF x])
    with vals have xin: "x \<in> dom cc" by (rule subsetD)
    obtain w' where w': "random_choice draws (INDEX_values cfg) w = (Inr x, w')"
      using x by (cases "random_choice draws (INDEX_values cfg) w") simp
    have "click_count w' = click_count w"
      using w' by (auto simp: random_choice_def split: if_splits)
    with Suc.prems have d: "dom (click_count w') = dom cc" by simp
    with xin click_element_state [of located url x w'] show ?thesis
      by (simp add: w')
  qed
  have body: "fst ?body = None \<and> dom (click_count (snd ?body)) = dom cc"
    using home g m c Suc.prems click_element_state [of located url g w]
      click_element_state [of located url m w] click_element_state [of located url c w]
    by (simp add: click_count_emit)
  let ?w1 = "emit (Sleep WAIT_TIME) (snd ?body)"
  from body have eq: "click_loop draws cfg located url suffix (Suc n) w
                      = click_loop draws cfg located url suffix n ?w1"
    by (cases ?body) (simp add: time_sleep_WAIT_TIME)
  have "dom (click_count ?w1) = dom cc" using body by (simp add: click_count_emit)
  from Suc.IH [OF this] show ?case unfolding eq .
qed

lemma page_interactions_sleeps:
  "\<exists>k\<le>1. sleeps (trace (snd (page_interactions draws cfg located url w)))
            = sleeps (trace w) @ replicate k WAIT_TIME
        \<and> (fst (page_interactions draws cfg located url w) = None \<longrightarrow> k = 1)"
proof -
  let ?w1 = "emit (Get url) w"
  let ?w2 = "?w1\<lparr>pos := pos ?w1 + 1\<rparr>"
  have r: "randint draws 1 MAX_CLICKS ?w1 = (Inr 1, ?w2)"
    by (simp add: randint_def MAX_CLICKS_def)
  have p: "page_interactions draws cfg located url w
             = click_loop draws cfg located url (url_suffix url) (Suc 0) ?w2"
    using r by (simp add: page_interactions_def Let_def)
  have "sleeps (trace ?w2) = sleeps (trace w)"
    by (simp add: emit_def sleeps_append)
  with click_loop_sleeps [of "Suc 0" draws cfg located url "url_suffix url" ?w2]
  show ?thesis unfolding p by simp
qed

lemma page_interactions_returns:
  assumes cc: "initial_click_count cfg = Inr cc"
    and vals: "set (INDEX_values cfg) \<subseteq> dom cc"
    and w: "dom (click_count w) = dom cc"
  shows "fst (page_interactions draws cfg located url w) = None
       \<and> dom (click_count (snd (page_interactions draws cfg located url w))) = dom cc"
proof -
  let ?w1 = "emit (Get url) w"
  let ?w2 = "?w1\<lparr>pos := pos ?w1 + 1\<rparr>"
  have r: "randint draws 1 MAX_CLICKS ?w1 = (Inr 1, ?w2)"
    by (simp add: randint_def MAX_CLICKS_def)
  have p: "page_interactions draws cfg located url w
             = click_loop draws cfg located url (url_suffix url) (Suc 0) ?w2"
    using r by (simp add: page_interactions_def Let_def)
  have "dom (click_count ?w2) = dom cc" using w by (simp add: click_count_emit)
  from click_loop_returns [OF cc vals this] show ?thesis unfolding p .
qed

text \<open>The sleeps of \<open>n\<close> requests that all return.\<close>

lemma poll_loop_sleeps:
  "\<exists>k. sleeps (trace (snd (poll_loop draws cfg located urls wait_time n w)))
          = sleeps (trace w) @ take k (concat (replicate n [WAIT_TIME, wait_time, wait_time]))
      \<and> (fst (poll_loop draws cfg located urls wait_time n w) = None
           \<longrightarrow> sleeps (trace (snd (poll_loop draws cfg located urls wait_time n w)))
                 = sleeps (trace w) @ concat (replicate n [WAIT_TIME, wait_time, wait_time]))"
proof (induction n arbitrary: w)
  case 0
  show ?case by simp
next
  case (Suc n)
  let ?pat = "concat (replicate n [WAIT_TIME, wait_time, wait_time])"
  let ?R = "poll_loop draws cfg located urls wait_time (Suc n) w"
  note rc = random_choice_state [of draws urls "emit Open w"]
  have goal: "\<exists>k. sleeps (trace (snd ?R))
                  = sleeps (trace w) @ take k ([WAIT_TIME, wait_time, wait_time] @ ?pat)
      \<and> (fst ?R = None
           \<longrightarrow> sleeps (trace (snd ?R))
                 = sleeps (trace w) @ [WAIT_TIME, wait_time, wait_time] @ ?pat)"
  proof (cases "random_choice draws urls (emit Open w)")
    case (Pair r w1)
    with rc have w1: "sleeps (trace w1) = sleeps (trace w)" by (simp add: sleeps_emit)
    show ?thesis
    proof (cases r)
      case (Inl e)
      with Pair w1 have "sleeps (trace (snd ?R))
              = sleeps (trace w) @ take 0 ([WAIT_TIME, wait_time, wait_time] @ ?pat)
          \<and> (fst ?R = None
               \<longrightarrow> sleeps (trace (snd ?R))
                     = sleeps (trace w) @ [WAIT_TIME, wait_time, wait_time] @ ?pat)"
        by simp
      then show ?thesis by (rule exI)
    next
      case (Inr url)
      from page_interactions_sleeps [of draws cfg located url w1] obtain j where
        jj: "j \<le> 1
        \<and> sleeps (trace (snd (page_interactions draws cfg located url w1)))
            = sleeps (trace w1) @ replicate j WAIT_TIME
        \<and> (fst (page_interactions draws cfg located url w1) = None \<longrightarrow> j = 1)"
        ..
      note j = jj [THEN conjunct1] jj [THEN conjunct2, THEN conjunct1]
        jj [THEN conjunct2, THEN conjunct2]
      show ?thesis
      proof (cases "page_interactions draws cfg located url w1")
        case (Pair eo w2)
        show ?thesis
        proof (cases eo)
          case (Some e)
          have R: "?R = (Some e, w2)"
            using \<open>random_choice draws urls (emit Open w) = (r, w1)\<close> Inr Pair Some by simp
          have "replicate j WAIT_TIME = take j ([WAIT_TIME, wait_time, wait_time] @ ?pat)"
            using j(1) by (cases j) simp_all
          with j(2) Pair w1 have "sleeps (trace (snd ?R))
              = sleeps (trace w) @ take j ([WAIT_TIME, wait_time, wait_time] @ ?pat)
            \<and> (fst ?R = None
               \<longrightarrow> sleeps (trace (snd ?R))
                     = sleeps (trace w) @ [WAIT_TIME, wait_time, wait_time] @ ?pat)"
            unfolding R by simp
          then show ?thesis by (rule exI)
        next
          case None
          note rcw = \<open>random_choice draws urls (emit Open w) = (r, w1)\<close>
          from j Pair None have s2: "sleeps (trace w2) = sleeps (trace w1) @ [WAIT_TIME]"
            by simp
          show ?thesis
          proof (cases "wait_time < 0")
            case True
            have R: "?R = (Some ValueError, w2)"
              using rcw Inr Pair None True by (simp add: time_sleep_def)
            have "sleeps (trace (snd ?R))
              = sleeps (trace w) @ take (Suc 0) ([WAIT_TIME, wait_time, wait_time] @ ?pat)
              \<and> (fst ?R = None
                 \<longrightarrow> sleeps (trace (snd ?R))
                       = sleeps (trace w) @ [WAIT_TIME, wait_time, wait_time] @ ?pat)"
              unfolding R using s2 w1 by simp
            then show ?thesis by (rule exI)
          next
            case False
            let ?w3 = "emit (Sleep wait_time)
                         (emit Completed (emit Quit (emit (Sleep wait_time) w2)))"
            have R: "?R = poll_loop draws cfg located urls wait_time n ?w3"
              using rcw Inr Pair None False by (simp add: time_sleep_def)
            from s2 w1 have w3: "sleeps (trace ?w3)
                                = sleeps (trace w) @ [WAIT_TIME, wait_time, wait_time]"
              by (simp add: sleeps_emit)
            from Suc.IH [of ?w3] obtain k where
              k: "sleeps (trace (snd (poll_loop draws cfg located urls wait_time n ?w3)))
                    = sleeps (trace ?w3) @ take k ?pat
              \<and> (fst (poll_loop draws cfg located urls wait_time n ?w3) = None
                 \<longrightarrow> sleeps (trace (snd (poll_loop draws cfg located urls wait_time n ?w3)))
                       = sleeps (trace ?w3) @ ?pat)"
              ..
            note k1 = k [THEN conjunct1] and k2 = k [THEN conjunct2]
            have a: "sleeps (trace (snd ?R))
                = sleeps (trace w)
                  @ take (Suc (Suc (Suc k))) ([WAIT_TIME, wait_time, wait_time] @ ?pat)"
              unfolding R k1 w3 by simp
            have b: "fst ?R = None
                 \<longrightarrow> sleeps (trace (snd ?R))
                       = sleeps (trace w) @ [WAIT_TIME, wait_time, wait_time] @ ?pat"
            proof
              assume "fst ?R = None"
              then have "fst (poll_loop draws cfg located urls wait_time n ?w3) = None"
                unfolding R .
              with k2
              have "sleeps (trace (snd (poll_loop draws cfg located urls wait_time n ?w3)))
                       = sleeps (trace ?w3) @ ?pat" ..
              then show "sleeps (trace (snd ?R))
                       = sleeps (trace w) @ [WAIT_TIME, wait_time, wait_time] @ ?pat"
                unfolding R w3 by simp
            qed
            from a b have "sleeps (trace (snd ?R))
                = sleeps (trace w)
                  @ take (Suc (Suc (Suc k))) ([WAIT_TIME, wait_time, wait_time] @ ?pat)
              \<and> (fst ?R = None
                 \<longrightarrow> sleeps (trace (snd ?R))
                       = sleeps (trace w) @ [WAIT_TIME, wait_time, wait_time] @ ?pat)"
              ..
            then show ?thesis by (rule exI)
          qed
        qed
      qed
    qed
  qed
  then show ?case by simp
qed

lemma poll_loop_returns:
  assumes cc: "initial_click_count cfg = Inr cc"
    and vals: "set (INDEX_values cfg) \<subseteq> dom cc"
    and urls: "urls \<noteq> []"
    and wait: "0 \<le> wait_time"
  shows "dom (click_count w) = dom cc \<Longrightarrow>
         fst (poll_loop draws cfg located urls wait_time n w) = None"
proof (induction n arbitrary: w)
  case 0
  show ?case by simp
next
  case (Suc n)
  from urls have "\<exists>url. fst (random_choice draws urls (emit Open w)) = Inr url"
    by (simp add: random_choice_def)
  then obtain url where "fst (random_choice draws urls (emit Open w)) = Inr url" ..
  then obtain w1 where w1: "random_choice draws urls (emit Open w) = (Inr url, w1)"
    by (cases "random_choice draws urls (emit Open w)") simp
  then have "click_count w1 = click_count (emit Open w)"
    by (auto simp: random_choice_def split: if_splits)
  with Suc.prems have "dom (click_count w1) = dom cc" by (simp add: click_count_emit)
  from page_interactions_returns [OF cc vals this, of draws located url]
  obtain w2 where w2: "page_interactions draws cfg located url w1 = (None, w2)"
    and d2: "dom (click_count w2) = dom cc"
    by (cases "page_interactions draws cfg located url w1") simp
  let ?w3 = "emit (Sleep wait_time) (emit Completed (emit Quit (emit (Sleep wait_time) w2)))"
  have "dom (click_count ?w3) = dom cc" using d2 by (simp add: click_count_emit)
  from Suc.IH [OF this] show ?case using w1 w2 wait by (simp add: time_sleep_def)
qed

lemma nth_append_take:
  assumes "i < length (xs @ take j p)" and "i < length (xs @ take k p)"
  shows "(xs @ take j p) ! i = (xs @ take k p) ! i"
proof (cases "i < length xs")
  case True
  then show ?thesis by (simp add: nth_append)
next
  case False
  with assms have "i - length xs < j" "i - length xs < k" by auto
  with False show ?thesis by (simp add: nth_append)
qed

text \<open>
  Claim C7, as amended. The delays of the traffic generator are fixed. Whatever the
  stream of random draws, the configuration, the browser's pages and the state at the
  start, the sleeps of a run of \<open>poll_site\<close> are an initial segment of the sequence that
  holds, for each of the \<open>num_requests\<close> requests, \<open>WAIT_TIME\<close> seconds after the one click
  and then \<open>wait_time\<close> seconds twice; they are the whole sequence when the run returns;
  and the run returns when the list of URLs is not empty, \<open>wait_time\<close> is not negative,
  the import of the module has built \<open>click_count\<close>, and every value of \<open>INDEX\<close> is one
  of its keys. A run that raises (\<open>IndexError\<close> for an empty list of URLs, \<open>KeyError\<close>
  for a clicked element that \<open>click_count\<close> does not hold, \<open>ValueError\<close> for a negative
  \<open>wait_time\<close>) stops sleeping there. The random draws choose the page and, on the home
  page, the button.
\<close>

theorem poll_site_fixed_delays:
  "(\<exists>k. sleeps (trace (snd (poll_site draws cfg located urls num_requests wait_time w)))
          = sleeps (trace w)
            @ take k (concat (replicate (nat num_requests) [WAIT_TIME, wait_time, wait_time])))
   \<and> (fst (poll_site draws cfg located urls num_requests wait_time w) = None
        \<longrightarrow> sleeps (trace (snd (poll_site draws cfg located urls num_requests wait_time w)))
              = sleeps (trace w)
                @ concat (replicate (nat num_requests) [WAIT_TIME, wait_time, wait_time]))
   \<and> (urls \<noteq> [] \<and> 0 \<le> wait_time \<and> initial_click_count cfg = Inr cc
        \<and> set (INDEX_values cfg) \<subseteq> dom cc \<and> dom (click_count w) = dom cc
        \<longrightarrow> fst (poll_site draws cfg located urls num_requests wait_time w) = None)"
proof -
  note s = poll_loop_sleeps [of draws cfg located urls wait_time "nat num_requests" w]
  from s have 1: "\<exists>k. sleeps (trace (snd (poll_site draws cfg located urls num_requests wait_time w)))
          = sleeps (trace w)
            @ take k (concat (replicate (nat num_requests) [WAIT_TIME, wait_time, wait_time]))"
    unfolding poll_site_def by (elim exE conjE) (rule exI)
  from s have 2: "fst (poll_site draws cfg located urls num_requests wait_time w) = None
        \<longrightarrow> sleeps (trace (snd (poll_site draws cfg located urls num_requests wait_time w)))
              = sleeps (trace w)
                @ concat (replicate (nat num_requests) [WAIT_TIME, wait_time, wait_time])"
    unfolding poll_site_def by (elim exE conjE)
  have 3: "urls \<noteq> [] \<and> 0 \<le> wait_time \<and> initial_click_count cfg = Inr cc
        \<and> set (INDEX_values cfg) \<subseteq> dom cc \<and> dom (click_count w) = dom cc
        \<longrightarrow> fst (poll_site draws cfg located urls num_requests wait_time w) = None"
  proof
    assume a: "urls \<noteq> [] \<and> 0 \<le> wait_time \<and> initial_click_count cfg = Inr cc
               \<and> set (INDEX_values cfg) \<subseteq> dom cc \<and> dom (click_count w) = dom cc"
    then have "urls \<noteq> []" "initial_click_count cfg = Inr cc"
      "set (INDEX_values cfg) \<subseteq> dom cc" "dom (click_count w) = dom cc" "0 \<le> wait_time"
      by simp_all
    from poll_loop_returns [OF this(2) this(3) this(1) this(5) this(4)]
    show "fst (poll_site draws cfg located urls num_requests wait_time w) = None"
      unfolding poll_site_def .
  qed
  from 1 2 3 show ?thesis by (intro conjI)
qed

text \<open>
  The theorem on two requests to the five pages of a deployment, with the example
  configuration: the run returns, and sleeps six times for two seconds.
\<close>

theorem poll_site_fixed_delays_witness:
  "get_urls ''https://x.net/'' \<noteq> [] \<and> (0 :: real) \<le> 2
   \<and> initial_click_count example_config = Inr (click_count example_world)
   \<and> set (INDEX_values example_config) \<subseteq> dom (click_count example_world)
   \<and> fst (poll_site (\<lambda>n. n) example_config (\<lambda>u e. True) (get_urls ''https://x.net/'') 2 2
            example_world) = None
   \<and> sleeps (trace (snd (poll_site (\<lambda>n. n) example_config (\<lambda>u e. True)
                            (get_urls ''https://x.net/'') 2 2 example_world)))
       = [2, 2, 2, 2, 2, 2]"
proof -
  have h1: "get_urls ''https://x.net/'' \<noteq> []"
    by (simp add: get_urls_def)
  have h2: "initial_click_count example_config = Inr (click_count example_world)"
    by (simp add: initial_click_count_def subscript_def example_config_def example_world_def)
  have h3: "set (INDEX_values example_config) \<subseteq> dom (click_count example_world)"
    by (simp add: INDEX_values_def example_config_def example_world_def)
  have h4: "sleeps (trace example_world) = []"
    by (simp add: example_world_def)
  have h5: "concat (replicate (nat 2) [WAIT_TIME, 2, 2]) = [2, 2, 2, 2, 2, 2 :: real]"
    by (simp add: WAIT_TIME_def numeral_2_eq_2)
  note inst = poll_site_fixed_delays [of "\<lambda>n. n" example_config "\<lambda>u e. True"
      "get_urls ''https://x.net/''" 2 2 example_world "click_count example_world"]
  from inst h1 h2 h3
  have r: "fst (poll_site (\<lambda>n. n) example_config (\<lambda>u e. True) (get_urls ''https://x.net/'') 2 2
            example_world) = None"
    by simp
  with inst have "sleeps (trace (snd (poll_site (\<lambda>n. n) example_config (\<lambda>u e. True)
                            (get_urls ''https://x.net/'') 2 2 example_world)))
       = sleeps (trace example_world) @ concat (replicate (nat 2) [WAIT_TIME, 2, 2])"
    by simp
  with h4 h5 have "sleeps (trace (snd (poll_site (\<lambda>n. n) example_config (\<lambda>u e. True)
                            (get_urls ''https://x.net/'') 2 2 example_world)))
       = [2, 2, 2, 2, 2, 2]"
    by simp
  moreover have "(0 :: real) \<le> 2" by simp
  ultimately show ?thesis using h1 h2 h3 r by (intro conjI)
qed

text \<open>
  Claim C7 as stated fails: no two runs of \<open>poll_site\<close> that differ only in their stream
  of random draws differ in the duration of a pause. Whatever is drawn, the pause at
  each position of the two runs, where both make one, lasts the same time.
\<close>

theorem poll_site_delays_not_random:
  "\<not> (\<exists>draws1 draws2 cfg located urls num_requests wait_time w k.
        k < length (sleeps (trace (snd (poll_site draws1 cfg located urls num_requests
                                          wait_time w))))
        \<and> k < length (sleeps (trace (snd (poll_site draws2 cfg located urls num_requests
                                            wait_time w))))
        \<and> sleeps (trace (snd (poll_site draws1 cfg located urls num_requests wait_time w))) ! k
            \<noteq> sleeps (trace (snd (poll_site draws2 cfg located urls num_requests wait_time w)))
                ! k)"
proof
  assume "\<exists>draws1 draws2 cfg located urls num_requests wait_time w k.
        k < length (sleeps (trace (snd (poll_site draws1 cfg located urls num_requests
                                          wait_time w))))
        \<and> k < length (sleeps (trace (snd (poll_site draws2 cfg located urls num_requests
                                            wait_time w))))
        \<and> sleeps (trace (snd (poll_site draws1 cfg located urls num_requests wait_time w))) ! k
            \<noteq> sleeps (trace (snd (poll_site draws2 cfg located urls num_requests wait_time w)))
                ! k"
  then obtain draws1 draws2 cfg located urls num_requests wait_time w k where
    k1: "k < length (sleeps (trace (snd (poll_site draws1 cfg located urls num_requests
                                          wait_time w))))"
    and k2: "k < length (sleeps (trace (snd (poll_site draws2 cfg located urls num_requests
                                            wait_time w))))"
    and ne: "sleeps (trace (snd (poll_site draws1 cfg located urls num_requests wait_time w))) ! k
            \<noteq> sleeps (trace (snd (poll_site draws2 cfg located urls num_requests wait_time w)))
                ! k"
    by (elim exE conjE)
  let ?pat = "concat (replicate (nat num_requests) [WAIT_TIME, wait_time, wait_time])"
  from poll_loop_sleeps [of draws1 cfg located urls wait_time "nat num_requests" w]
  obtain i where i: "sleeps (trace (snd (poll_site draws1 cfg located urls num_requests
                                            wait_time w)))
                       = sleeps (trace w) @ take i ?pat"
    unfolding poll_site_def by (elim exE conjE)
  from poll_loop_sleeps [of draws2 cfg located urls wait_time "nat num_requests" w]
  obtain j where j: "sleeps (trace (snd (poll_site draws2 cfg located urls num_requests
                                            wait_time w)))
                       = sleeps (trace w) @ take j ?pat"
    unfolding poll_site_def by (elim exE conjE)
  from k1 k2 have "(sleeps (trace w) @ take i ?pat) ! k = (sleeps (trace w) @ take j ?pat) ! k"
    unfolding i j by (rule nth_append_take)
  with ne show False unfolding i j ..
qed

text \<open>What the draws do change: the page that a request loads, and with it the click.\<close>

lemma poll_site_random_pages:
  "trace (snd (poll_site (\<lambda>n. 1) example_config (\<lambda>u e. True) (get_urls ''https://x.net/'') 1 2
                 example_world))
     = [Open, Get ''https://x.net/graphs'', Click ''graph'', Sleep 2, Sleep 2, Quit, Completed,
        Sleep 2]
   \<and> trace (snd (poll_site (\<lambda>n. 2) example_config (\<lambda>u e. True) (get_urls ''https://x.net/'') 1 2
                 example_world))
     = [Open, Get ''https://x.net/maps'', Click ''map'', Sleep 2, Sleep 2, Quit, Completed,
        Sleep 2]"
  by (simp add: poll_site_def random_choice_def get_urls_def emit_def page_interactions_def
      randint_def MAX_CLICKS_def WAIT_TIME_def url_suffix_def click_element_def example_config_def
      time_sleep_def
      example_world_def subscript_def)

text \<open>
  A run that raises. With a fourth id in \<open>INDEX\<close>, a request to the home page that draws
  that id clicks the element and raises \<open>KeyError\<close> at the count, before any sleep; a
  request that draws the first id returns after its three sleeps.
\<close>

lemma poll_site_missing_count:
  "get_urls ''https://x.net/'' ! 0 = ''https://x.net/''
   \<and> (let r = poll_site (\<lambda>n. if n = 0 then 0 else 3) example_config_four (\<lambda>u e. True)
                 (get_urls ''https://x.net/'') 1 2 example_world
      in fst r = Some KeyError
         \<and> trace (snd r) = [Open, Get ''https://x.net/'', Click ''blue''])
   \<and> (let r = poll_site (\<lambda>n. 0) example_config_four (\<lambda>u e. True)
                 (get_urls ''https://x.net/'') 1 2 example_world
      in fst r = None \<and> sleeps (trace (snd r)) = [2, 2, 2])"
  by (simp add: poll_site_def random_choice_def get_urls_def emit_def page_interactions_def
      randint_def MAX_CLICKS_def WAIT_TIME_def url_suffix_def click_element_def example_config_def
      time_sleep_def
      example_config_four_def example_world_def subscript_def INDEX_values_def Let_def)

text \<open>A negative \<open>wait_time\<close> raises at the first pause that is to last that long.\<close>

lemma poll_site_negative_wait:
  "(let r = poll_site (\<lambda>n. 0) example_config (\<lambda>u e. True) (get_urls ''https://x.net/'') 2 (- 1)
              example_world
    in fst r = Some ValueError \<and> sleeps (trace (snd r)) = [2])"
  by (simp add: poll_site_def random_choice_def get_urls_def emit_def page_interactions_def
      randint_def MAX_CLICKS_def WAIT_TIME_def url_suffix_def click_element_def example_config_def
      time_sleep_def example_world_def subscript_def INDEX_values_def Let_def numeral_2_eq_2)
section \<open>Stop-word removal: what is removed\<close>











text \<open>
  The runs of a text make up the text; each is a word or holds no word character; and
  they are maximal: neighbours are of different kinds.
\<close>

lemma concat_runs: "concat (runs wc t) = t"
  by (induction wc t rule: runs.induct) simp_all

lemma runs_kinds:
  "r \<in> set (runs wc t) \<Longrightarrow> is_word wc r \<or> (r \<noteq> [] \<and> (\<forall>c\<in>set r. \<not> wc c))"
proof (induction wc t rule: runs.induct)
  case (1 wc)
  then show ?case by simp
next
  case (2 wc c cs)
  show ?case
  proof (cases "r = c # takeWhile (\<lambda>x. wc x = wc c) cs")
    case True
    have "\<forall>x\<in>set (takeWhile (\<lambda>x. wc x = wc c) cs). wc x = wc c"
      by (auto dest: set_takeWhileD)
    with True show ?thesis by (cases "wc c") (auto simp: is_word_def list_all_iff)
  next
    case False
    with "2.prems" have "r \<in> set (runs wc (dropWhile (\<lambda>x. wc x = wc c) cs))" by simp
    then show ?thesis by (rule "2.IH")
  qed
qed

lemma runs_maximal:
  "Suc i < length (runs wc t) \<Longrightarrow>
   wc (hd (runs wc t ! Suc i)) \<noteq> wc (last (runs wc t ! i))"
proof (induction wc t arbitrary: i rule: runs.induct)
  case (1 wc)
  then show ?case by simp
next
  case (2 wc c cs)
  let ?rest = "dropWhile (\<lambda>x. wc x = wc c) cs"
  let ?r = "c # takeWhile (\<lambda>x. wc x = wc c) cs"
  show ?case
  proof (cases i)
    case 0
    with "2.prems" have ne: "?rest \<noteq> []" by (cases ?rest) auto
    then obtain d ds where d: "?rest = d # ds" by (cases ?rest) auto
    from ne have "\<not> (wc (hd ?rest) = wc c)" by (rule hd_dropWhile)
    with d have dc: "wc d \<noteq> wc c" by simp
    have "last ?r \<in> set ?r" by simp
    then have "wc (last ?r) = wc c" by (auto dest: set_takeWhileD)
    moreover have "hd (runs wc ?rest ! 0) = d" by (simp add: d)
    ultimately show ?thesis using 0 dc by simp
  next
    case (Suc j)
    with "2.prems" have "Suc j < length (runs wc ?rest)" by simp
    from "2.IH" [OF this] show ?thesis using Suc by simp
  qed
qed





text \<open>
  The deletion comes before the lower-casing, so a stop word that is written with a
  capital is kept, in small letters. And a stop word is deleted inside a token that
  white space delimits, wherever \<open>\b\<close> holds on both of its sides.
\<close>

lemma remove_stop_words_capital:
  "remove_stop_words_and_set_case ascii_word_char ascii_lower [''the''] [Some ''The cat''] = [Some ''the cat'']"
  by (simp add: remove_stop_words_and_set_case_def boundary_def
      ascii_word_char_def ascii_lower_def ascii_lower_char_def)

lemma remove_stop_words_inside_token:
  "remove_stop_words_and_set_case ascii_word_char ascii_lower [''re''] [Some ''re-do it'']
     = [Some ''-do it'']"
  by (simp add: remove_stop_words_and_set_case_def boundary_def
      ascii_word_char_def ascii_lower_def ascii_lower_char_def)

text \<open>
  A stop word that is no word and that no earlier stop word begins is deleted as a
  whole, which is not what \<open>stop_words_deleted\<close> says.
\<close>

lemma remove_stop_words_contraction_alone:
  "remove_stop_words_and_set_case ascii_word_char ascii_lower [''don'' @ [CHR 0x27] @ ''t'']
     [Some (''don'' @ [CHR 0x27] @ ''t stop'')] = [Some '' stop'']
   \<and> stop_words_deleted ascii_word_char ascii_lower [''don'' @ [CHR 0x27] @ ''t'']
       (''don'' @ [CHR 0x27] @ ''t stop'') = ''don'' @ [CHR 0x27] @ ''t stop''"
  by code_simp

section \<open>tariff_analysis: what the archiving of \<open>run_processor\<close> changes\<close>

lemma self_in_ancestors: "d \<noteq> [] \<Longrightarrow> d \<in> set (ancestors d)"
proof -
  assume "d \<noteq> []"
  then have "length d \<in> set [1..<Suc (length d)]" by (cases d) auto
  then have "take (length d) d \<in> set (ancestors d)"
    unfolding ancestors_def by (metis (no_types, lifting) image_eqI set_map)
  then show ?thesis by simp
qed

lemma longer_not_ancestor: "d @ [n] \<notin> set (ancestors d)"
proof
  assume "d @ [n] \<in> set (ancestors d)"
  then obtain k where "d @ [n] = take k d" by (auto simp: ancestors_def)
  then have "length (d @ [n]) = length (take k d)" by simp
  then show False by simp
qed

lemma archive_ready_made:
  assumes "archive_ready fs d"
  shows "\<exists>fs0. (if \<not> path_exists fs d then makedirs d fs else Inr fs) = Inr fs0
           \<and> fs_files fs0 = fs_files fs \<and> d \<in> set (fs_dirs fs0)
           \<and> set (fs_dirs fs) \<subseteq> set (fs_dirs fs0)
           \<and> set (fs_dirs fs0) \<subseteq> set (fs_dirs fs) \<union> set (ancestors d)"
proof (cases "d \<in> set (fs_dirs fs)")
  case True
  then have "path_exists fs d" by (simp add: path_exists_def)
  with True show ?thesis by simp
next
  case False
  with assms have d: "d \<noteq> []"
    and nofile: "\<not> list_ex (\<lambda>p. map_of (fs_files fs) (butlast p, last p) \<noteq> None) (ancestors d)"
    by (simp_all add: archive_ready_def)
  from d have "d \<in> set (ancestors d)" by (rule self_in_ancestors)
  with nofile have "map_of (fs_files fs) (butlast d, last d) = None"
    by (auto simp: list_ex_iff)
  with False have ne: "\<not> path_exists fs d" by (simp add: path_exists_def)
  let ?fs0 = "fs\<lparr>fs_dirs := fs_dirs fs @ filter (\<lambda>p. p \<notin> set (fs_dirs fs)) (ancestors d)\<rparr>"
  have mk: "makedirs d fs = Inr ?fs0"
    using False nofile by (simp add: makedirs_def)
  have "d \<in> set (fs_dirs ?fs0)"
    using False \<open>d \<in> set (ancestors d)\<close> by simp
  moreover have "fs_files ?fs0 = fs_files fs" by simp
  moreover have "set (fs_dirs fs) \<subseteq> set (fs_dirs ?fs0)" by auto
  moreover have "set (fs_dirs ?fs0) \<subseteq> set (fs_dirs fs) \<union> set (ancestors d)" by auto
  ultimately show ?thesis using ne mk by (intro exI [of _ ?fs0]) simp
qed

text \<open>The log.\<close>

lemma log_grown_refl: "log_grown a a"
  by (cases "(a, a)" rule: log_grown.cases) simp_all

lemma log_grown_append: "log_grown (Some (Log ls)) b \<longleftrightarrow> (\<exists>new. b = Some (Log (ls @ new)))"
proof (cases b)
  case None
  then show ?thesis by simp
next
  case (Some c)
  show ?thesis
  proof (cases c)
    case (Log ls')
    have "take (length ls) ls' = ls \<longleftrightarrow> (\<exists>new. ls' = ls @ new)"
      by (metis append_eq_conv_conj append_take_drop_id)
    with Some Log show ?thesis by simp
  qed (simp_all add: Some)
qed

lemma log_grown_other: "(\<forall>ls. a \<noteq> Some (Log ls)) \<Longrightarrow> log_grown a b \<longleftrightarrow> a = b"
  by (cases "(a, b)" rule: log_grown.cases) simp_all

lemma log_grown_trans:
  assumes "log_grown a b" and "log_grown b c"
  shows "log_grown a c"
proof (cases "\<exists>ls. a = Some (Log ls)")
  case True
  then obtain ls where a: "a = Some (Log ls)" ..
  with assms(1) obtain n1 where b: "b = Some (Log (ls @ n1))"
    by (auto simp: log_grown_append)
  with assms(2) obtain n2 where "c = Some (Log ((ls @ n1) @ n2))"
    by (auto simp: log_grown_append)
  then have "c = Some (Log (ls @ (n1 @ n2)))" by simp
  then show ?thesis unfolding a log_grown_append by (rule exI)
next
  case False
  then have na: "\<forall>ls. a \<noteq> Some (Log ls)" by simp
  with assms(1) have ab: "a = b" by (simp add: log_grown_other)
  with na assms(2) have "b = c" by (simp add: log_grown_other)
  with ab show ?thesis by (simp add: log_grown_refl)
qed

lemma map_fst_map_entry: "map fst (AList.map_entry k f xs) = map fst xs"
  by (induction xs) auto

lemma filter_dir_map_entry:
  "fst k \<noteq> d \<Longrightarrow>
   filter (\<lambda>(f, c). fst f = d) (AList.map_entry k g xs) = filter (\<lambda>(f, c). fst f = d) xs"
  by (induction xs) auto

lemma logger_dirs: "fs_dirs (logger lf lvl fn fs) = fs_dirs fs"
  by (simp add: logger_def)

lemma logger_keys: "map fst (fs_files (logger lf lvl fn fs)) = map fst (fs_files fs)"
  by (simp add: logger_def map_fst_map_entry)

lemma logger_other:
  "k \<noteq> lf \<Longrightarrow> map_of (fs_files (logger lf lvl fn fs)) k = map_of (fs_files fs) k"
  by (simp add: logger_def map_of_map_entry)

lemma logger_grown:
  "log_grown (map_of (fs_files fs) lf) (map_of (fs_files (logger lf lvl fn fs)) lf)"
proof (cases "map_of (fs_files fs) lf")
  case None
  then show ?thesis by (simp add: logger_def map_of_map_entry)
next
  case (Some c)
  then show ?thesis by (cases c) (simp_all add: logger_def map_of_map_entry)
qed

text \<open>The zip.\<close>

lemma zip_members_listed:
  "\<forall>(f, c)\<in>set xs. map_of fl f = Some c \<Longrightarrow>
   zip_members fl (map fst xs) = map (\<lambda>(f, c). (snd f, c)) xs"
  by (induction xs) auto

lemma zip_name_timestamp:
  "length ts = n \<Longrightarrow> zip_name n (Some ((d, ts @ rest) # others)) = ts @ ''_results.zip''"
  by (simp add: zip_name_def)

text \<open>The removals.\<close>

lemma fold_remove:
  "fs_dirs (fold (\<lambda>f fs. case os_remove f fs of
                           Inl err \<Rightarrow> logger lf ERROR fn fs
                         | Inr fs' \<Rightarrow> logger lf INFO fn fs') L fs) = fs_dirs fs
   \<and> (\<forall>k. k \<noteq> lf \<longrightarrow>
         map_of (fs_files (fold (\<lambda>f fs. case os_remove f fs of
                                          Inl err \<Rightarrow> logger lf ERROR fn fs
                                        | Inr fs' \<Rightarrow> logger lf INFO fn fs') L fs)) k
           = (if k \<in> set L then None else map_of (fs_files fs) k))
   \<and> (lf \<notin> set L \<longrightarrow>
         log_grown (map_of (fs_files fs) lf)
           (map_of (fs_files (fold (\<lambda>f fs. case os_remove f fs of
                                             Inl err \<Rightarrow> logger lf ERROR fn fs
                                           | Inr fs' \<Rightarrow> logger lf INFO fn fs') L fs)) lf))"
proof (induction L arbitrary: fs)
  case Nil
  show ?case by (simp add: log_grown_refl)
next
  case (Cons f L)
  let ?step = "\<lambda>f fs. case os_remove f fs of
                           Inl err \<Rightarrow> logger lf ERROR fn fs
                         | Inr fs' \<Rightarrow> logger lf INFO fn fs'"
  let ?fs1 = "?step f fs"
  have d: "fs_dirs ?fs1 = fs_dirs fs"
    by (simp add: os_remove_def logger_dirs)
  have o: "map_of (fs_files ?fs1) k = (if k = f then None else map_of (fs_files fs) k)"
    if "k \<noteq> lf" for k
  proof (cases "map_of (fs_files fs) f = None")
    case True
    then show ?thesis using that by (auto simp: os_remove_def logger_other)
  next
    case False
    then show ?thesis using that by (auto simp: os_remove_def logger_other delete_conv')
  qed
  have g: "log_grown (map_of (fs_files fs) lf) (map_of (fs_files ?fs1) lf)" if "f \<noteq> lf"
  proof (cases "map_of (fs_files fs) f = None")
    case True
    then show ?thesis by (simp add: os_remove_def logger_grown)
  next
    case False
    let ?fs' = "fs\<lparr>fs_files := AList.delete f (fs_files fs)\<rparr>"
    have e: "map_of (fs_files ?fs') lf = map_of (fs_files fs) lf"
      using that by (simp add: delete_conv')
    from False obtain y where "map_of (fs_files fs) f = Some y" by auto
    then have s: "?fs1 = logger lf INFO fn ?fs'"
      by (simp add: os_remove_def)
    from logger_grown [of ?fs' lf INFO fn] show ?thesis
      unfolding s e .
  qed
  note ih = Cons.IH [of ?fs1]
  have 1: "fs_dirs (fold ?step (f # L) fs) = fs_dirs fs"
    using ih [THEN conjunct1] d by simp
  have 2: "\<forall>k. k \<noteq> lf \<longrightarrow>
         map_of (fs_files (fold ?step (f # L) fs)) k
           = (if k \<in> set (f # L) then None else map_of (fs_files fs) k)"
  proof (intro allI impI)
    fix k assume k: "k \<noteq> lf"
    have A: "fold ?step (f # L) fs = fold ?step L ?fs1" by simp
    have B: "map_of (fs_files (fold ?step L ?fs1)) k
                    = (if k \<in> set L then None else map_of (fs_files ?fs1) k)"
      by (rule ih [THEN conjunct2, THEN conjunct1, rule_format, OF k])
    show "map_of (fs_files (fold ?step (f # L) fs)) k
           = (if k \<in> set (f # L) then None else map_of (fs_files fs) k)"
      unfolding A B o [OF k] by simp
  qed
  have 3: "lf \<notin> set (f # L) \<longrightarrow>
         log_grown (map_of (fs_files fs) lf) (map_of (fs_files (fold ?step (f # L) fs)) lf)"
  proof
    assume a: "lf \<notin> set (f # L)"
    then have "f \<noteq> lf" "lf \<notin> set L" by auto
    from g [OF this(1)] have g1: "log_grown (map_of (fs_files fs) lf) (map_of (fs_files ?fs1) lf)" .
    have "log_grown (map_of (fs_files ?fs1) lf) (map_of (fs_files (fold ?step L ?fs1)) lf)"
      by (rule ih [THEN conjunct2, THEN conjunct2, rule_format, OF \<open>lf \<notin> set L\<close>])
    with g1 have "log_grown (map_of (fs_files fs) lf)
                    (map_of (fs_files (fold ?step L ?fs1)) lf)"
      by (rule log_grown_trans)
    then show "log_grown (map_of (fs_files fs) lf)
                    (map_of (fs_files (fold ?step (f # L) fs)) lf)"
      by simp
  qed
  from 1 2 3 show ?case by (intro conjI)
qed

lemma auto_archive_files_archives:
  assumes keys: "distinct (map fst (fs_files fs))"
    and out: "dir_name \<in> set (fs_dirs fs)"
    and ready: "archive_ready fs archive_dir"
    and other: "archive_dir \<noteq> dir_name"
    and nodir: "archive_dir @ [zip_name n (Some (map fst (files_in dir_name fs)))]
                  \<notin> set (fs_dirs fs)"
    and log_out: "fst lf \<noteq> dir_name"
    and log_zip: "lf \<noteq> (archive_dir, zip_name n (Some (map fst (files_in dir_name fs))))"
  shows "\<exists>fs1. auto_archive_files lf dir_name archive_dir True n fs = (None, fs1)
          \<and> (\<forall>k. k \<noteq> lf \<longrightarrow>
                map_of (fs_files fs1) k
                  = (if fst k = dir_name then None
                     else if k = (archive_dir, zip_name n (Some (map fst (files_in dir_name fs))))
                     then Some (Zip (map (\<lambda>(f, c). (snd f, c)) (files_in dir_name fs)))
                     else map_of (fs_files fs) k))
          \<and> log_grown (map_of (fs_files fs) lf) (map_of (fs_files fs1) lf)
          \<and> set (fs_dirs fs) \<subseteq> set (fs_dirs fs1)"
proof -
  let ?L = "map fst (files_in dir_name fs)"
  let ?zn = "zip_name n (Some ?L)"
  let ?zp = "(archive_dir, ?zn)"
  let ?Z = "Zip (map (\<lambda>(f, c). (snd f, c)) (files_in dir_name fs))"
  from archive_ready_made [OF ready] obtain fs0 where
    fs0: "(if \<not> path_exists fs archive_dir then makedirs archive_dir fs else Inr fs) = Inr fs0"
    and f0: "fs_files fs0 = fs_files fs" and a0: "archive_dir \<in> set (fs_dirs fs0)"
    and sub: "set (fs_dirs fs) \<subseteq> set (fs_dirs fs0)"
    and sup: "set (fs_dirs fs0) \<subseteq> set (fs_dirs fs) \<union> set (ancestors archive_dir)"
    by (elim exE conjE)
  have nodir0: "archive_dir @ [?zn] \<notin> set (fs_dirs fs0)"
  proof
    assume "archive_dir @ [?zn] \<in> set (fs_dirs fs0)"
    with sup have "archive_dir @ [?zn] \<in> set (fs_dirs fs) \<union> set (ancestors archive_dir)" ..
    with nodir longer_not_ancestor [of archive_dir ?zn] show False by simp
  qed
  have inL: "k \<in> set ?L \<longleftrightarrow> fst k = dir_name \<and> map_of (fs_files fs) k \<noteq> None" for k
  proof
    assume "k \<in> set ?L"
    then obtain c where "(k, c) \<in> set (fs_files fs)" "fst k = dir_name"
      by (auto simp: files_in_def)
    moreover from this keys have "map_of (fs_files fs) k = Some c"
      by (simp add: map_of_is_SomeI)
    ultimately show "fst k = dir_name \<and> map_of (fs_files fs) k \<noteq> None" by simp
  next
    assume a: "fst k = dir_name \<and> map_of (fs_files fs) k \<noteq> None"
    then obtain c where "map_of (fs_files fs) k = Some c" by auto
    then have "(k, c) \<in> set (fs_files fs)" by (rule map_of_SomeD)
    with a have "(k, c) \<in> set (files_in dir_name fs)" by (simp add: files_in_def)
    then show "k \<in> set ?L" by force
  qed
  have zpL: "?zp \<notin> set ?L" using other inL [of ?zp] by simp
  have lfL: "lf \<notin> set ?L" using log_out inL [of lf] by simp
  let ?fsA = "logger lf INFO ''get_all_files_in_dir'' fs0"
  have listing: "get_all_files_in_dir lf dir_name fs0 = (Some ?L, ?fsA)"
    using out sub by (auto simp: get_all_files_in_dir_def files_in_def f0)
  define fsB where
    "fsB = (if ?L = [] then logger lf WARNING ''add_files_to_zip'' ?fsA else ?fsA)"
  have warn: "(case Some ?L of Some (f # rest) \<Rightarrow> ?fsA
               | _ \<Rightarrow> logger lf WARNING ''add_files_to_zip'' ?fsA) = fsB"
    unfolding fsB_def by (cases ?L) simp_all
  have dB: "fs_dirs fsB = fs_dirs fs0" by (simp add: fsB_def logger_dirs)
  have oB: "map_of (fs_files fsB) k = map_of (fs_files fs) k" if "k \<noteq> lf" for k
    using that by (simp add: fsB_def logger_other f0)
  have gA: "log_grown (map_of (fs_files fs) lf) (map_of (fs_files ?fsA) lf)"
    using logger_grown [of fs0 lf INFO "''get_all_files_in_dir''"] by (simp add: f0)
  have gB: "log_grown (map_of (fs_files fs) lf) (map_of (fs_files fsB) lf)"
  proof (cases "?L = []")
    case True
    have "log_grown (map_of (fs_files ?fsA) lf)
            (map_of (fs_files (logger lf WARNING ''add_files_to_zip'' ?fsA)) lf)"
      by (rule logger_grown)
    with gA have "log_grown (map_of (fs_files fs) lf)
            (map_of (fs_files (logger lf WARNING ''add_files_to_zip'' ?fsA)) lf)"
      by (rule log_grown_trans)
    with True show ?thesis by (simp add: fsB_def)
  next
    case False
    with gA show ?thesis by (simp add: fsB_def)
  qed
  define fsC where "fsC = fsB\<lparr>fs_files := AList.update ?zp (Zip []) (fs_files fsB)\<rparr>"
  have dC: "fs_dirs fsC = fs_dirs fs0" by (simp add: fsC_def dB)
  have oC: "map_of (fs_files fsC) k = map_of (fs_files fs) k" if "k \<noteq> lf" "k \<noteq> ?zp" for k
    using that oB [of k] by (simp add: fsC_def update_conv')
  have held: "\<forall>(f, c)\<in>set (files_in dir_name fs). map_of (fs_files fsC) f = Some c"
  proof (intro ballI, clarify)
    fix a b c assume m: "((a, b), c) \<in> set (files_in dir_name fs)"
    then have "(a, b) \<in> set ?L" by force
    with zpL lfL have ne: "(a, b) \<noteq> lf" "(a, b) \<noteq> ?zp" by auto
    from m have "((a, b), c) \<in> set (fs_files fs)" by (auto simp: files_in_def)
    with keys have "map_of (fs_files fs) (a, b) = Some c" by (simp add: map_of_is_SomeI)
    with oC [OF ne] show "map_of (fs_files fsC) (a, b) = Some c" by simp
  qed
  have members: "zip_members (fs_files fsC) ?L
                   = map (\<lambda>(f, c). (snd f, c)) (files_in dir_name fs)"
    using held by (rule zip_members_listed)
  have readable: "list_all (\<lambda>f. map_of (fs_files fsC) f \<noteq> None) ?L"
    using held by (auto simp: list_all_iff)
  define fsD where "fsD = fsC\<lparr>fs_files := AList.update ?zp ?Z (fs_files fsC)\<rparr>"
  define fsE where "fsE = logger lf INFO ''add_files_to_zip'' fsD"
  have zipped: "add_files_to_zip lf archive_dir (Some ?L) n ?fsA = fsE"
    unfolding add_files_to_zip_def Let_def warn fsC_def [symmetric] members fsD_def [symmetric]
    using a0 nodir0 readable by (simp add: dB fsE_def fsD_def members)
  have dE: "fs_dirs fsE = fs_dirs fs0" by (simp add: fsE_def fsD_def dC logger_dirs)
  have oE: "map_of (fs_files fsE) k = (if k = ?zp then Some ?Z else map_of (fs_files fs) k)"
    if "k \<noteq> lf" for k
  proof (cases "k = ?zp")
    case True
    with that show ?thesis by (simp add: fsE_def fsD_def logger_other update_conv')
  next
    case False
    with that oC [of k] show ?thesis by (simp add: fsE_def fsD_def logger_other update_conv')
  qed
  have "map_of (fs_files fsD) lf = map_of (fs_files fsB) lf"
    using log_zip by (simp add: fsD_def fsC_def update_conv')
  with logger_grown [of fsD lf INFO "''add_files_to_zip''"]
  have "log_grown (map_of (fs_files fsB) lf) (map_of (fs_files fsE) lf)"
    by (simp add: fsE_def)
  with gB have gE: "log_grown (map_of (fs_files fs) lf) (map_of (fs_files fsE) lf)"
    by (rule log_grown_trans)
  let ?step = "\<lambda>f fs. case os_remove f fs of
                         Inl err \<Rightarrow> logger lf ERROR ''delete_files_from_dir'' fs
                       | Inr fs' \<Rightarrow> logger lf INFO ''delete_files_from_dir'' fs'"
  let ?fs4 = "fold ?step ?L fsE"
  note fr = fold_remove [of lf "''delete_files_from_dir''" ?L fsE]
  have run: "auto_archive_files lf dir_name archive_dir True n fs = (None, ?fs4)"
    unfolding auto_archive_files_def fs0
    by (simp add: listing zipped delete_files_from_dir_def Let_def)
  have 1: "\<forall>k. k \<noteq> lf \<longrightarrow>
                map_of (fs_files ?fs4) k
                  = (if fst k = dir_name then None
                     else if k = ?zp then Some ?Z else map_of (fs_files fs) k)"
  proof (intro allI impI)
    fix k assume k: "k \<noteq> lf"
    have "map_of (fs_files ?fs4) k = (if k \<in> set ?L then None else map_of (fs_files fsE) k)"
      by (rule fr [THEN conjunct2, THEN conjunct1, rule_format, OF k])
    also have "\<dots> = (if k \<in> set ?L then None
                      else if k = ?zp then Some ?Z else map_of (fs_files fs) k)"
      by (simp only: oE [OF k])
    also have "\<dots> = (if fst k = dir_name then None
                     else if k = ?zp then Some ?Z else map_of (fs_files fs) k)"
      using other inL [of k] by auto
    finally show "map_of (fs_files ?fs4) k
                  = (if fst k = dir_name then None
                     else if k = ?zp then Some ?Z else map_of (fs_files fs) k)" .
  qed
  have "log_grown (map_of (fs_files fsE) lf) (map_of (fs_files ?fs4) lf)"
    by (rule fr [THEN conjunct2, THEN conjunct2, rule_format, OF lfL])
  with gE have 2: "log_grown (map_of (fs_files fs) lf) (map_of (fs_files ?fs4) lf)"
    by (rule log_grown_trans)
  have "fs_dirs ?fs4 = fs_dirs fs0"
    using fr [THEN conjunct1] dE by simp
  with sub have 3: "set (fs_dirs fs) \<subseteq> set (fs_dirs ?fs4)" by simp
  show ?thesis
    by (rule exI [of _ ?fs4], intro conjI) (rule run, rule 1, rule 2, rule 3)
qed

lemma to_csv_frame:
  "to_csv path csv fs = Inr fs' \<Longrightarrow> k \<noteq> path \<Longrightarrow>
   map_of (fs_files fs') k = map_of (fs_files fs) k"
  by (auto simp: to_csv_def update_conv' split: if_splits)

lemma write_file_info_frame:
  assumes "fst k \<noteq> dir_name"
  shows "(k \<noteq> lf \<longrightarrow>
            map_of (fs_files (write_file_info lf now dir_name text_item fs)) k
              = map_of (fs_files fs) k)
       \<and> (k = lf \<longrightarrow>
            log_grown (map_of (fs_files fs) k)
              (map_of (fs_files (write_file_info lf now dir_name text_item fs)) k))"
proof (cases "dir_name \<in> set (fs_dirs fs)
              \<and> dir_name @ [now @ ''_input_files.txt''] \<notin> set (fs_dirs fs)")
  case True
  let ?fs' = "fs\<lparr>fs_files := AList.update (dir_name, now @ ''_input_files.txt'')
                                (Data (text_item @ [CHR 0x0A])) (fs_files fs)\<rparr>"
  from True have w: "write_file_info lf now dir_name text_item fs
                       = logger lf INFO ''write_file_info'' ?fs'"
    by (simp add: write_file_info_def Let_def)
  have e: "map_of (fs_files ?fs') k = map_of (fs_files fs) k"
    using assms by (auto simp: update_conv')
  have 1: "k \<noteq> lf \<longrightarrow> map_of (fs_files (logger lf INFO ''write_file_info'' ?fs')) k
                          = map_of (fs_files fs) k"
    using e by (simp add: logger_other)
  have 2: "k = lf \<longrightarrow> log_grown (map_of (fs_files fs) k)
                          (map_of (fs_files (logger lf INFO ''write_file_info'' ?fs')) k)"
  proof
    assume "k = lf"
    with logger_grown [of ?fs' lf INFO "''write_file_info''"] e
    show "log_grown (map_of (fs_files fs) k)
            (map_of (fs_files (logger lf INFO ''write_file_info'' ?fs')) k)"
      by simp
  qed
  from 1 2 show ?thesis unfolding w ..
next
  case False
  then have w: "write_file_info lf now dir_name text_item fs
                  = logger lf ERROR ''write_file_info'' fs"
    by (auto simp: write_file_info_def Let_def)
  show ?thesis unfolding w by (simp add: logger_other logger_grown)
qed

text \<open>
  Claim C10, as amended. Let the file table be well formed (one entry for a path), the
  output directory (that of \<open>output_file\<close>) be there, the archive directory be ready and
  differ from the output directory, no directory stand at the path of the zip, and the
  log file be neither in the output directory nor at the path of the zip. Then the
  archiving of \<open>run_processor\<close> raises nothing and leaves a file system \<open>fs1\<close>, in which
  \<open>run_processor\<close> then writes its CSV and its file of input names. In \<open>fs1\<close> no file is
  left directly in the output directory, and the zip in the archive directory holds
  every file that was directly in the output directory, under its name and with its
  content. The zip is named by \<open>add_files_to_zip\<close> from the first file listed: when that
  file's name begins with a timestamp (as many characters as the formatted time has),
  the zip is that timestamp followed by \<open>_results.zip\<close>. After \<open>run_processor\<close>, every
  file outside the output directory, other than that zip and the log file, is as it was
  before, and the log file has only gained lines.
\<close>

theorem run_processor_archives:
  assumes keys: "distinct (map fst (fs_files fs))"
    and out: "fst output_file \<in> set (fs_dirs fs)"
    and ready: "archive_ready fs (os_path_join (fst output_file) archive)"
    and other: "os_path_join (fst output_file) archive \<noteq> fst output_file"
    and nodir: "os_path_join (fst output_file) archive
                  @ [zip_name (length now_zip) (Some (map fst (files_in (fst output_file) fs)))]
                  \<notin> set (fs_dirs fs)"
    and log_out: "fst log_file \<noteq> fst output_file"
    and log_zip: "log_file \<noteq> (os_path_join (fst output_file) archive,
                               zip_name (length now_zip)
                                 (Some (map fst (files_in (fst output_file) fs))))"
  shows "\<exists>fs1.
           auto_archive_files log_file (fst output_file) (os_path_join (fst output_file) archive)
               True (length now_zip) fs = (None, fs1)
         \<and> run_processor log_file archive output_file input_name rates_csv now_zip now_csv
               now_info fs
             = (case to_csv (add_timestamp now_csv output_file) rates_csv fs1 of
                  Inl e \<Rightarrow> (Some e, fs1)
                | Inr fs2 \<Rightarrow>
                    (None, write_file_info log_file now_info (fst output_file) input_name fs2))
         \<and> (\<forall>nm. map_of (fs_files fs1) (fst output_file, nm) = None)
         \<and> map_of (fs_files fs1)
              (os_path_join (fst output_file) archive,
               zip_name (length now_zip) (Some (map fst (files_in (fst output_file) fs))))
             = Some (Zip (map (\<lambda>(f, c). (snd f, c)) (files_in (fst output_file) fs)))
         \<and> (\<forall>d ts rest c others.
                files_in (fst output_file) fs = ((d, ts @ rest), c) # others
                \<and> length ts = length now_zip
                \<longrightarrow> zip_name (length now_zip) (Some (map fst (files_in (fst output_file) fs)))
                      = ts @ ''_results.zip'')
         \<and> (\<forall>k. fst k \<noteq> fst output_file
                \<and> k \<noteq> (os_path_join (fst output_file) archive,
                         zip_name (length now_zip)
                           (Some (map fst (files_in (fst output_file) fs))))
                \<and> k \<noteq> log_file
                \<longrightarrow> map_of (fs_files (snd (run_processor log_file archive output_file input_name
                                               rates_csv now_zip now_csv now_info fs))) k
                    = map_of (fs_files fs) k)
         \<and> log_grown (map_of (fs_files fs) log_file)
              (map_of (fs_files (snd (run_processor log_file archive output_file input_name
                                        rates_csv now_zip now_csv now_info fs))) log_file)"
proof -
  let ?d = "fst output_file"
  let ?a = "os_path_join ?d archive"
  let ?zp = "(?a, zip_name (length now_zip) (Some (map fst (files_in ?d fs))))"
  let ?Z = "Zip (map (\<lambda>(f, c). (snd f, c)) (files_in ?d fs))"
  let ?run = "run_processor log_file archive output_file input_name rates_csv now_zip now_csv
                now_info fs"
  from auto_archive_files_archives [OF keys out ready other nodir log_out log_zip]
  obtain fs1 where
    run: "auto_archive_files log_file ?d ?a True (length now_zip) fs = (None, fs1)"
    and look: "\<forall>k. k \<noteq> log_file \<longrightarrow>
                map_of (fs_files fs1) k
                  = (if fst k = ?d then None
                     else if k = ?zp then Some ?Z else map_of (fs_files fs) k)"
    and grown: "log_grown (map_of (fs_files fs) log_file) (map_of (fs_files fs1) log_file)"
    by (elim exE conjE)
  have rp: "?run = (case to_csv (add_timestamp now_csv output_file) rates_csv fs1 of
                  Inl e \<Rightarrow> (Some e, fs1)
                | Inr fs2 \<Rightarrow> (None, write_file_info log_file now_info ?d input_name fs2))"
    by (simp add: run_processor_def Let_def run)
  have gone: "\<forall>nm. map_of (fs_files fs1) (?d, nm) = None"
  proof
    fix nm
    have "(?d, nm) \<noteq> log_file" using log_out by auto
    from look [rule_format, OF this] show "map_of (fs_files fs1) (?d, nm) = None" by simp
  qed
  have zip: "map_of (fs_files fs1) ?zp = Some ?Z"
    using look [rule_format, OF log_zip [symmetric]] other by simp
  have name: "\<forall>d ts rest c others.
                files_in ?d fs = ((d, ts @ rest), c) # others \<and> length ts = length now_zip
                \<longrightarrow> zip_name (length now_zip) (Some (map fst (files_in ?d fs)))
                      = ts @ ''_results.zip''"
    by (simp add: zip_name_def)
  have after: "(k \<noteq> log_file \<longrightarrow> map_of (fs_files (snd ?run)) k = map_of (fs_files fs1) k)
             \<and> (k = log_file \<longrightarrow>
                  log_grown (map_of (fs_files fs1) k) (map_of (fs_files (snd ?run)) k))"
    if k: "fst k \<noteq> ?d" for k
  proof (cases "to_csv (add_timestamp now_csv output_file) rates_csv fs1")
    case (Inl e)
    then show ?thesis by (simp add: rp log_grown_refl)
  next
    case (Inr fs2)
    have "k \<noteq> add_timestamp now_csv output_file"
      using k by (auto simp: add_timestamp_def)
    with Inr have e: "map_of (fs_files fs2) k = map_of (fs_files fs1) k"
      by (rule to_csv_frame)
    from write_file_info_frame [OF k, of log_file now_info input_name fs2]
    show ?thesis unfolding rp Inr e by simp
  qed
  have fr: "\<forall>k. fst k \<noteq> ?d \<and> k \<noteq> ?zp \<and> k \<noteq> log_file
             \<longrightarrow> map_of (fs_files (snd ?run)) k = map_of (fs_files fs) k"
  proof (intro allI impI)
    fix k assume k: "fst k \<noteq> ?d \<and> k \<noteq> ?zp \<and> k \<noteq> log_file"
    then have "map_of (fs_files (snd ?run)) k = map_of (fs_files fs1) k"
      using after [of k] by simp
    also have "\<dots> = map_of (fs_files fs) k"
      using look [rule_format, of k] k by simp
    finally show "map_of (fs_files (snd ?run)) k = map_of (fs_files fs) k" .
  qed
  have "log_grown (map_of (fs_files fs1) log_file) (map_of (fs_files (snd ?run)) log_file)"
    using after [OF log_out] by simp
  with grown have lg: "log_grown (map_of (fs_files fs) log_file)
                         (map_of (fs_files (snd ?run)) log_file)"
    by (rule log_grown_trans)
  show ?thesis
    by (rule exI [of _ fs1], intro conjI)
       (rule run, rule rp, rule gone, rule zip, rule name, rule fr, rule lg)
qed

text \<open>The run on the example file system.\<close>

lemma run_processor_example:
  "run_processor (LOG_FILE [''repo'', ''code''] ''20211105-101459'')
     (ARCHIVE_DIR [''repo'', ''code'']) (AU_RATES_OUTPUT_FILE [''repo'', ''code''])
     ''rates.docx'' ''new rates'' ''20211105-101500'' ''20211105-101500'' ''20211105-101501''
     example_fs
   = (None,
      \<lparr>fs_dirs = fs_dirs example_fs,
       fs_files =
         [(([''repo'', ''data'', ''processed'', ''archive''], ''20211103-132021_results.zip''),
            Zip [(''20211103-132021_au_rates.csv'', Data ''old rates''),
                 (''20211103-132021_input_files.txt'', Data ''old info'')]),
          (([''repo'', ''data'', ''processed''], ''au_uses.csv''), Data ''uses''),
          (([''repo'', ''code'', ''logs''], ''20211105-101459_ingest.log''),
            Log [(INFO, ''get_raw_data_from_file''), (INFO, ''get_all_files_in_dir''),
                 (INFO, ''add_files_to_zip''), (INFO, ''delete_files_from_dir''),
                 (INFO, ''delete_files_from_dir''), (INFO, ''write_file_info'')]),
          (([''repo'', ''data'', ''processed'', ''demo''], ''20211105-101500_au_rates.csv''),
            Data ''new rates''),
          (([''repo'', ''data'', ''processed'', ''demo''], ''20211105-101501_input_files.txt''),
            Data (''rates.docx'' @ [CHR 0x0A]))]\<rparr>)"
  by code_simp

text \<open>
  The theorem on the example file system, with the paths of \<open>config.py\<close>: the zip takes
  the timestamp of the first file archived, and the file \<open>au_uses.csv\<close>, outside the
  output directory, is unchanged.
\<close>

theorem run_processor_archives_witness:
  "distinct (map fst (fs_files example_fs))
   \<and> fst (AU_RATES_OUTPUT_FILE [''repo'', ''code'']) \<in> set (fs_dirs example_fs)
   \<and> archive_ready example_fs
         (os_path_join (fst (AU_RATES_OUTPUT_FILE [''repo'', ''code'']))
            (ARCHIVE_DIR [''repo'', ''code'']))
   \<and> fst (LOG_FILE [''repo'', ''code''] ''20211105-101459'')
       \<noteq> fst (AU_RATES_OUTPUT_FILE [''repo'', ''code''])
   \<and> files_in (fst (AU_RATES_OUTPUT_FILE [''repo'', ''code''])) example_fs
       = (([''repo'', ''data'', ''processed'', ''demo''], ''20211103-132021'' @ ''_au_rates.csv''),
          Data ''old rates'')
         # [(([''repo'', ''data'', ''processed'', ''demo''], ''20211103-132021_input_files.txt''),
             Data ''old info'')]
   \<and> zip_name (length ''20211105-101500'')
         (Some (map fst (files_in (fst (AU_RATES_OUTPUT_FILE [''repo'', ''code''])) example_fs)))
       = ''20211103-132021'' @ ''_results.zip''
   \<and> map_of (fs_files (snd (run_processor (LOG_FILE [''repo'', ''code''] ''20211105-101459'')
                               (ARCHIVE_DIR [''repo'', ''code''])
                               (AU_RATES_OUTPUT_FILE [''repo'', ''code'']) ''rates.docx''
                               ''new rates'' ''20211105-101500'' ''20211105-101500''
                               ''20211105-101501'' example_fs)))
         ([''repo'', ''data'', ''processed''], ''au_uses.csv'')
       = Some (Data ''uses'')"
proof -
  let ?lf = "LOG_FILE [''repo'', ''code''] ''20211105-101459''"
  let ?out = "AU_RATES_OUTPUT_FILE [''repo'', ''code'']"
  let ?arc = "ARCHIVE_DIR [''repo'', ''code'']"
  let ?uses = "([''repo'', ''data'', ''processed''], ''au_uses.csv'')"
  have keys: "distinct (map fst (fs_files example_fs))"
    by code_simp
  have out: "fst ?out \<in> set (fs_dirs example_fs)"
    by code_simp
  have ready: "archive_ready example_fs (os_path_join (fst ?out) ?arc)"
    by code_simp
  have other: "os_path_join (fst ?out) ?arc \<noteq> fst ?out"
    by code_simp
  have nodir: "os_path_join (fst ?out) ?arc
               @ [zip_name (length ''20211105-101500'')
                    (Some (map fst (files_in (fst ?out) example_fs)))]
               \<notin> set (fs_dirs example_fs)"
    by code_simp
  have log_out: "fst ?lf \<noteq> fst ?out"
    by code_simp
  have log_zip: "?lf \<noteq> (os_path_join (fst ?out) ?arc,
                         zip_name (length ''20211105-101500'')
                           (Some (map fst (files_in (fst ?out) example_fs))))"
    by code_simp
  have listed: "files_in (fst ?out) example_fs
       = (([''repo'', ''data'', ''processed'', ''demo''], ''20211103-132021'' @ ''_au_rates.csv''),
          Data ''old rates'')
         # [(([''repo'', ''data'', ''processed'', ''demo''], ''20211103-132021_input_files.txt''),
             Data ''old info'')]"
    by code_simp
  have len: "length ''20211103-132021'' = length ''20211105-101500''"
    by simp
  have k1: "fst ?uses \<noteq> fst ?out"
    by code_simp
  have k2: "?uses \<noteq> (os_path_join (fst ?out) ?arc,
                       zip_name (length ''20211105-101500'')
                         (Some (map fst (files_in (fst ?out) example_fs))))"
    by code_simp
  have k3: "?uses \<noteq> ?lf"
    by code_simp
  have before: "map_of (fs_files example_fs) ?uses = Some (Data ''uses'')"
    by code_simp
  from run_processor_archives [OF keys out ready other nodir log_out log_zip,
      of "''rates.docx''" "''new rates''" "''20211105-101500''" "''20211105-101501''"]
  obtain fs1 where
    name: "\<forall>d ts rest c others.
                files_in (fst ?out) example_fs = ((d, ts @ rest), c) # others
                \<and> length ts = length ''20211105-101500''
                \<longrightarrow> zip_name (length ''20211105-101500'')
                      (Some (map fst (files_in (fst ?out) example_fs)))
                      = ts @ ''_results.zip''"
    and frame: "\<forall>k. fst k \<noteq> fst ?out
                \<and> k \<noteq> (os_path_join (fst ?out) ?arc,
                         zip_name (length ''20211105-101500'')
                           (Some (map fst (files_in (fst ?out) example_fs))))
                \<and> k \<noteq> ?lf
                \<longrightarrow> map_of (fs_files (snd (run_processor ?lf ?arc ?out ''rates.docx''
                                               ''new rates'' ''20211105-101500''
                                               ''20211105-101500'' ''20211105-101501''
                                               example_fs))) k
                    = map_of (fs_files example_fs) k"
    by (elim exE conjE)
  from name [rule_format, OF conjI [OF listed len]]
  have zn: "zip_name (length ''20211105-101500'')
              (Some (map fst (files_in (fst ?out) example_fs)))
            = ''20211103-132021'' @ ''_results.zip''" .
  from frame [rule_format, of ?uses] k1 k2 k3 before
  have unchanged: "map_of (fs_files (snd (run_processor ?lf ?arc ?out ''rates.docx''
                                               ''new rates'' ''20211105-101500''
                                               ''20211105-101500'' ''20211105-101501''
                                               example_fs))) ?uses
                     = Some (Data ''uses'')"
    by simp
  from keys out ready log_out listed zn unchanged show ?thesis by (intro conjI)
qed

text \<open>
  Claim C10 as stated fails. With the paths of \<open>config.py\<close> the archive directory,
  \<open>data/processed/archive\<close>, is not under the output directory of the rates,
  \<open>data/processed/demo\<close>; the zip that was in it under the name that the archiving uses,
  a file outside the output directory, is replaced; and the log file, in \<open>code/logs\<close>,
  gains lines. And with a directory at the path of the zip, the files of the output
  directory are deleted although no zip holds them.
\<close>

theorem run_processor_overwrites_archive:
  "fst ([''repo'', ''data'', ''processed'', ''archive''], ''20211103-132021_results.zip'')
     \<noteq> fst (AU_RATES_OUTPUT_FILE [''repo'', ''code''])
   \<and> map_of (fs_files example_fs)
         ([''repo'', ''data'', ''processed'', ''archive''], ''20211103-132021_results.zip'')
       = Some (Zip [(''keep.csv'', Data ''an earlier archive'')])
   \<and> map_of (fs_files (snd (run_processor (LOG_FILE [''repo'', ''code''] ''20211105-101459'')
                               (ARCHIVE_DIR [''repo'', ''code''])
                               (AU_RATES_OUTPUT_FILE [''repo'', ''code'']) ''rates.docx''
                               ''new rates'' ''20211105-101500'' ''20211105-101500''
                               ''20211105-101501'' example_fs)))
         ([''repo'', ''data'', ''processed'', ''archive''], ''20211103-132021_results.zip'')
       = Some (Zip [(''20211103-132021_au_rates.csv'', Data ''old rates''),
                    (''20211103-132021_input_files.txt'', Data ''old info'')])
   \<and> map_of (fs_files example_fs) (LOG_FILE [''repo'', ''code''] ''20211105-101459'')
       = Some (Log [(INFO, ''get_raw_data_from_file'')])
   \<and> map_of (fs_files (snd (run_processor (LOG_FILE [''repo'', ''code''] ''20211105-101459'')
                               (ARCHIVE_DIR [''repo'', ''code''])
                               (AU_RATES_OUTPUT_FILE [''repo'', ''code'']) ''rates.docx''
                               ''new rates'' ''20211105-101500'' ''20211105-101500''
                               ''20211105-101501'' example_fs)))
         (LOG_FILE [''repo'', ''code''] ''20211105-101459'')
       = Some (Log [(INFO, ''get_raw_data_from_file''), (INFO, ''get_all_files_in_dir''),
                    (INFO, ''add_files_to_zip''), (INFO, ''delete_files_from_dir''),
                    (INFO, ''delete_files_from_dir''), (INFO, ''write_file_info'')])
   \<and> map_of (fs_files example_fs_blocked)
         ([''repo'', ''data'', ''processed'', ''demo''], ''20211103-132021_au_rates.csv'')
       = Some (Data ''old rates'')
   \<and> map_of (fs_files (snd (run_processor (LOG_FILE [''repo'', ''code''] ''20211105-101459'')
                               (ARCHIVE_DIR [''repo'', ''code''])
                               (AU_RATES_OUTPUT_FILE [''repo'', ''code'']) ''rates.docx''
                               ''new rates'' ''20211105-101500'' ''20211105-101500''
                               ''20211105-101501'' example_fs_blocked)))
         ([''repo'', ''data'', ''processed'', ''demo''], ''20211103-132021_au_rates.csv'')
       = None
   \<and> list_all (\<lambda>(f, c). case c of Zip members \<Rightarrow> False | _ \<Rightarrow> True)
        (fs_files (snd (run_processor (LOG_FILE [''repo'', ''code''] ''20211105-101459'')
                          (ARCHIVE_DIR [''repo'', ''code''])
                          (AU_RATES_OUTPUT_FILE [''repo'', ''code'']) ''rates.docx''
                          ''new rates'' ''20211105-101500'' ''20211105-101500''
                          ''20211105-101501'' example_fs_blocked)))"
  by code_simp
section \<open>tariff_analysis: the rows that \<open>extract_commodity_description\<close> returns\<close>

lemma labels_expand: "map fst (rows (expand sr)) = map fst sr"
  by (simp add: expand_def Let_def comp_def case_prod_unfold)

lemma labels_str_split: "map fst (rows (str_split pat ser)) = map fst ser"
  by (simp add: str_split_def labels_expand comp_def case_prod_unfold)

lemma labels_str_rsplit: "map fst (rows (str_rsplit pat ser)) = map fst ser"
  by (simp add: str_rsplit_def labels_expand comp_def case_prod_unfold)

lemma labels_column: "column k df = Inr c \<Longrightarrow> map fst c = map fst (rows df)"
  by (auto simp: column_def comp_def case_prod_unfold split: if_splits)

lemma labels_replace_trailing_text:
  "replace_trailing_text df k p = Inr df' \<Longrightarrow> map fst (rows df') = map fst (rows df)"
  by (auto simp: replace_trailing_text_def comp_def case_prod_unfold split: if_splits)

lemma selected_filter: "selected_from (filter keep df) df"
  unfolding selected_from_def by blast

lemma selected_dropna_map:
  "map fst ser = map fst df \<Longrightarrow> selected_from (dropna (map (\<lambda>(i, cell). (i, g i cell)) ser)) df"
  unfolding selected_from_def dropna_def
  by (rule exI [of _ "map (\<lambda>(i, cell). (i, g i cell)) ser"], rule exI)
     (simp add: comp_def case_prod_unfold)

lemma selected_dropna:
  "map fst ser = map fst df \<Longrightarrow> selected_from (dropna ser) df"
  unfolding selected_from_def dropna_def by blast

lemma selected_split_on_last_newline:
  "split_on_last_newline ser = Inr s \<Longrightarrow> selected_from s ser"
proof -
  assume a: "split_on_last_newline ser = Inr s"
  then obtain c where c: "column 1 (str_rsplit [NL] ser) = Inr c" and s: "s = dropna c"
    by (auto simp: split_on_last_newline_def split: sum.splits)
  from labels_column [OF c] have "map fst c = map fst ser" by (simp add: labels_str_rsplit)
  then show ?thesis unfolding s by (rule selected_dropna)
qed

lemma selected_desc_hyphens_last_line:
  "selected_from (desc_hyphens_last_line ser pattern) ser"
proof (cases "column 1 (str_rsplit pattern ser)")
  case (Inl e)
  then have "desc_hyphens_last_line ser pattern = filter (\<lambda>x. False) ser"
    by (simp add: desc_hyphens_last_line_def del: One_nat_def)
  then show ?thesis by (simp only: selected_filter)
next
  case (Inr c)
  from labels_column [OF Inr] have l: "map fst c = map fst ser" by (simp add: labels_str_rsplit)
  have "desc_hyphens_last_line ser pattern
          = dropna (map (\<lambda>(i, cell). (i, map_option (\<lambda>s. pattern @ s) cell)) c)"
    using Inr by (simp add: desc_hyphens_last_line_def)
  then show ?thesis using selected_dropna_map [OF l, of "\<lambda>i. map_option (\<lambda>s. pattern @ s)"]
    by simp
qed

lemma selected_desc_bullets:
  assumes "desc_bullets ser pattern = Inr d"
  shows "selected_from d ser"
proof -
  from assms obtain cols1 new_desc_cols first_line number_1 where
    r1: "replace_trailing_text (str_split pattern ser) 0 [NL, SPACE] = Inr cols1"
    and r2: "replace_trailing_text cols1 0 [NL] = Inr new_desc_cols"
    and c1: "column 1 new_desc_cols = Inr number_1"
    and d: "d = dropna (map (\<lambda>(i, cell).
                              (i, case (map_of first_line i, cell) of
                                    (Some (Some l), Some s) \<Rightarrow> Some (l @ pattern @ s)
                                  | _ \<Rightarrow> None))
                           number_1)"
    by (auto simp: desc_bullets_def split: sum.splits)
  have "map fst number_1 = map fst ser"
    using labels_column [OF c1] labels_replace_trailing_text [OF r2]
      labels_replace_trailing_text [OF r1] by (simp add: labels_str_split)
  then show ?thesis unfolding d by (rule selected_dropna_map)
qed


lemma selected_labels:
  assumes "selected_from picked df" and "distinct (map fst df)"
  shows "distinct (map fst picked) \<and> set (map fst picked) \<subseteq> set (map fst df)"
proof -
  from assms(1) obtain ser keep where p: "picked = filter keep ser"
    and l: "map fst ser = map fst df"
    unfolding selected_from_def by blast
  from assms(2) l have "distinct (map fst ser)" by simp
  then have "distinct (map fst (filter keep ser))" by (rule distinct_map_filter)
  moreover have "set (map fst (filter keep ser)) \<subseteq> set (map fst ser)" by auto
  ultimately show ?thesis using p l by simp
qed

lemma not_isin_rest:
  assumes "selected_from picked df" and "distinct (map fst df)"
  shows "distinct (map fst (not_isin df picked))
       \<and> distinct (map fst (picked @ not_isin df picked))
       \<and> set (map fst (picked @ not_isin df picked)) = set (map fst df)"
proof -
  from selected_labels [OF assms] have dp: "distinct (map fst picked)"
    and sp: "set (map fst picked) \<subseteq> set (map fst df)" by simp_all
  have dn: "distinct (map fst (not_isin df picked))"
    unfolding not_isin_def using assms(2) by (rule distinct_map_filter)
  have sn: "set (map fst (not_isin df picked)) = set (map fst df) - set (map fst picked)"
    by (auto simp: not_isin_def image_iff)
  from dp dn sn have "distinct (map fst (picked @ not_isin df picked))" by auto
  moreover from sp sn have "set (map fst (picked @ not_isin df picked)) = set (map fst df)"
    by auto
  ultimately show ?thesis using dn by simp
qed

lemma append_partition:
  assumes "distinct (map fst (a @ r))" and "distinct (map fst (b @ r'))"
    and "set (map fst (b @ r')) = set (map fst r)"
  shows "distinct (map fst (a @ b @ r')) \<and> set (map fst (a @ b @ r')) = set (map fst (a @ r))"
  using assms by auto

lemma sorted_labels:
  assumes "distinct (map fst z)" and "set (map fst z) = set (map fst df)"
    and "distinct (map fst df)"
  shows "map fst (sort_key fst z) = sort (map fst df) \<and> length (sort_key fst z) = length df"
proof -
  have "length (map fst z) = length (map fst df)"
    using assms by (metis distinct_card)
  then have len: "length (sort_key fst z) = length df" by simp
  have "set (map fst (sort_key fst z)) = set (map fst df)"
    using assms(2) by simp
  moreover have "distinct (map fst (sort_key fst z))"
  proof (rule card_distinct)
    have "card (set (map fst (sort_key fst z))) = card (set (map fst df))"
      using assms(2) by simp
    also have "\<dots> = length df" using assms(3) by (metis distinct_card length_map)
    finally show "card (set (map fst (sort_key fst z))) = length (map fst (sort_key fst z))"
      using len by simp
  qed
  moreover have "sorted (map fst (sort_key fst z))" by (rule sorted_sort_key)
  ultimately have "map fst (sort_key fst z) = sort (map fst df)"
    using assms(3) by (intro sorted_distinct_set_unique) simp_all
  with len show ?thesis by simp
qed

text \<open>
  Where the function returns, on a frame with distinct labels, every row has gone to
  exactly one of the heuristics: the Series returned has the labels of the frame, in
  increasing order, and its length.
\<close>

lemma extract_commodity_description_index:
  assumes ret: "extract_commodity_description df = Inr goods_description"
    and labels: "distinct (map fst df)"
  shows "map fst goods_description = sort (map fst df)
       \<and> length goods_description = length df"
proof -
  define a where "a = filter (\<lambda>(i, cell). cell = Some [HYPHEN]) df"
  define df1 where "df1 = not_isin df a"
  define b where "b = desc_hyphens_last_line df1 [NL, HYPHEN, HYPHEN]"
  define df2 where "df2 = not_isin df1 b"
  define c where "c = desc_hyphens_last_line df2 [NL, HYPHEN, SPACE, HYPHEN]"
  define df3 where "df3 = not_isin df2 c"
  from ret obtain d where d: "desc_bullets df3 [NL, HYPHEN] = Inr d"
    by (auto simp: extract_commodity_description_def Let_def a_def df1_def b_def df2_def c_def
        df3_def split: sum.splits)
  define df4 where "df4 = not_isin df3 d"
  from ret d obtain e where e: "desc_bullets df4 [NL, BULLET] = Inr e"
    by (auto simp: extract_commodity_description_def Let_def a_def df1_def b_def df2_def c_def
        df3_def df4_def split: sum.splits)
  define df5 where "df5 = not_isin df4 e"
  from ret d e obtain f where f: "split_on_last_newline df5 = Inr f"
    by (auto simp: extract_commodity_description_def Let_def a_def df1_def b_def df2_def c_def
        df3_def df4_def df5_def split: sum.splits)
  define df6 where "df6 = not_isin df5 f"
  have gd: "goods_description = sort_key fst (a @ b @ c @ d @ e @ f @ df6)"
    using ret d e f
    by (simp add: extract_commodity_description_def Let_def a_def df1_def b_def df2_def c_def
        df3_def df4_def df5_def df6_def)
  have sa: "selected_from a df" unfolding a_def by (rule selected_filter)
  note p1 = not_isin_rest [OF sa labels, folded df1_def]
  have sb: "selected_from b df1" unfolding b_def by (rule selected_desc_hyphens_last_line)
  note p2 = not_isin_rest [OF sb p1 [THEN conjunct1], folded df2_def]
  have sc: "selected_from c df2" unfolding c_def by (rule selected_desc_hyphens_last_line)
  note p3 = not_isin_rest [OF sc p2 [THEN conjunct1], folded df3_def]
  note p4 = not_isin_rest [OF selected_desc_bullets [OF d] p3 [THEN conjunct1], folded df4_def]
  note p5 = not_isin_rest [OF selected_desc_bullets [OF e] p4 [THEN conjunct1], folded df5_def]
  note p6 = not_isin_rest [OF selected_split_on_last_newline [OF f] p5 [THEN conjunct1],
      folded df6_def]
  have q5: "distinct (map fst (e @ f @ df6)) \<and> set (map fst (e @ f @ df6)) = set (map fst df4)"
    using append_partition [of e df5 f df6] p5 p6 by simp
  have q4: "distinct (map fst (d @ e @ f @ df6))
            \<and> set (map fst (d @ e @ f @ df6)) = set (map fst df3)"
    using append_partition [of d df4 "e @ f" df6] p4 q5 by simp
  have q3: "distinct (map fst (c @ d @ e @ f @ df6))
            \<and> set (map fst (c @ d @ e @ f @ df6)) = set (map fst df2)"
    using append_partition [of c df3 "d @ e @ f" df6] p3 q4 by simp
  have q2: "distinct (map fst (b @ c @ d @ e @ f @ df6))
            \<and> set (map fst (b @ c @ d @ e @ f @ df6)) = set (map fst df1)"
    using append_partition [of b df2 "c @ d @ e @ f" df6] p2 q3 by simp
  have q1: "distinct (map fst (a @ b @ c @ d @ e @ f @ df6))
            \<and> set (map fst (a @ b @ c @ d @ e @ f @ df6)) = set (map fst df)"
    using append_partition [of a df1 "b @ c @ d @ e @ f" df6] p1 q2 by simp
  show ?thesis unfolding gd
    by (rule sorted_labels) (simp_all only: q1 labels)
qed


text \<open>
  A frame on which the function returns: one row for each of four heuristics. The rows
  come back under their labels, each with one description.
\<close>

lemma extract_commodity_description_example:
  "extract_commodity_description
     [(0, Some (u ''A'' @ [NL] @ u ''B'' @ [NL, HYPHEN] @ u ''c'')),
      (1, Some (u ''-'')),
      (2, Some (u ''E'' @ [NL] @ u ''F'' @ [NL, BULLET] @ u ''g'')),
      (3, Some (u ''H'' @ [NL] @ u ''I''))]
   = Inr [(0, Some (u ''B'' @ [NL, HYPHEN] @ u ''c'')),
          (1, Some (u ''-'')),
          (2, Some (u ''F'' @ [NL, BULLET] @ u ''g'')),
          (3, Some (u ''I''))]"
  by code_simp

text \<open>
  Claim C1. The function does not return on every frame. On the frame of the two rows
  \<open>Live horses\<close> and \<open>-\<close> no cell holds a newline: the split that \<open>desc_bullets\<close> makes for
  the pattern \<open>"\n-"\<close> has the single column \<open>number_0\<close>, the split of that column at the
  last newline has no column \<open>number_1\<close>, and reading it in \<open>split_on_last_newline\<close> raises
  \<open>KeyError\<close>. The function's docstring says that the Series it returns should have the
  length of the frame, and \<open>desc_hyphens_last_line\<close> tests for the column before it reads
  it.
\<close>

theorem extract_commodity_description_raises:
  "extract_commodity_description [(0, Some (u ''Live horses'')), (1, Some (u ''-''))]
     = Inl KeyError"
  by code_simp

end
